theory Spec2Isabelle
  imports Main "HOL-Library.Word"
begin

section \<open>Bytes, strings and instrumented reads\<close>

text \<open>
  A \<open>DBusString\<close> is the list of its bytes; \<open>_dbus_string_get_length\<close> is \<open>length\<close>.
  Offsets and lengths are natural numbers, so the assertions \<open>start >= 0\<close> and
  \<open>len >= 0\<close> of the C code hold by type. A pointer into the data of a string is the
  index of the byte it points to.

  Every function that dereferences a pointer returns, next to its result, the list of the
  indices it has read, in program order. A read at an index outside the storage of the
  string has no defined value in C: it is the outcome \<open>ReadFault\<close>. A failed
  \<open>_dbus_assert\<close> is the outcome \<open>AssertionFailed\<close>. A loop that does not
  return is the value \<open>None\<close>.
\<close>

type_synonym byte = "8 word"
type_synonym trace = "nat list"

datatype 'a outcome = Returns 'a | AssertionFailed | ReadFault

definition peek :: "byte list \<Rightarrow> nat \<Rightarrow> byte option" where
  "peek str i = (if i < length str then Some (str ! i) else None)"

definition bytes :: "string \<Rightarrow> byte list" where
  "bytes s = map of_char s"

datatype DBusValidity =
    DBUS_VALID
  | DBUS_INVALID_SIGNATURE_TOO_LONG
  | DBUS_INVALID_EXCEEDED_MAXIMUM_ARRAY_RECURSION
  | DBUS_INVALID_EXCEEDED_MAXIMUM_STRUCT_RECURSION
  | DBUS_INVALID_STRUCT_ENDED_BUT_NOT_STARTED
  | DBUS_INVALID_STRUCT_HAS_NO_FIELDS
  | DBUS_INVALID_UNKNOWN_TYPECODE
  | DBUS_INVALID_MISSING_ARRAY_ELEMENT_TYPE
  | DBUS_INVALID_STRUCT_STARTED_BUT_NOT_ENDED
  | DBUS_INVALID_NOT_ENOUGH_DATA
  | DBUS_INVALID_ALIGNMENT_PADDING_NOT_NUL
  | DBUS_INVALID_BOOLEAN_NOT_ZERO_OR_ONE
  | DBUS_INVALID_STRING_LENGTH_OUT_OF_BOUNDS
  | DBUS_INVALID_BAD_PATH
  | DBUS_INVALID_BAD_UTF8_IN_STRING
  | DBUS_INVALID_ARRAY_LENGTH_INCORRECT
  | DBUS_INVALID_STRING_MISSING_NUL
  | DBUS_INVALID_SIGNATURE_LENGTH_OUT_OF_BOUNDS
  | DBUS_INVALID_BAD_SIGNATURE
  | DBUS_INVALID_SIGNATURE_MISSING_NUL
  | DBUS_INVALID_VARIANT_SIGNATURE_LENGTH_OUT_OF_BOUNDS
  | DBUS_INVALID_VARIANT_SIGNATURE_BAD
  | DBUS_INVALID_VARIANT_SIGNATURE_MISSING_NUL
  | DBUS_INVALID_VARIANT_SIGNATURE_EMPTY
  | DBUS_INVALID_VARIANT_SIGNATURE_SPECIFIES_MULTIPLE_VALUES
  | DBUS_INVALID_TOO_MUCH_DATA

subsection \<open>What the sources use and do not define\<close>

text \<open>
  The limits of \<open>dbus-protocol.h\<close>, \<open>_DBUS_INT_MAX\<close>, the width of
  \<open>unsigned long\<close> and the UTF-8 validator of \<open>dbus-string.c\<close> are not among the
  sources: they are parameters of the model.
\<close>

record dbus_params =
  DBUS_MAXIMUM_SIGNATURE_LENGTH :: nat
  DBUS_MAXIMUM_TYPE_RECURSION_DEPTH :: nat
  DBUS_MAXIMUM_NAME_LENGTH :: nat
  DBUS_INT_MAX :: nat
  unsigned_long_bits :: nat
  dbus_string_validate_utf8 :: "byte list \<Rightarrow> bool"

text \<open>
  The values of the D-Bus protocol on an LP64 platform, for evaluating the model at
  concrete inputs. The stand-in for the UTF-8 validator accepts the ASCII strings.
\<close>

definition dbus_lp64 :: dbus_params where
  "dbus_lp64 =
     \<lparr> DBUS_MAXIMUM_SIGNATURE_LENGTH = 255,
       DBUS_MAXIMUM_TYPE_RECURSION_DEPTH = 32,
       DBUS_MAXIMUM_NAME_LENGTH = 255,
       DBUS_INT_MAX = 2147483647,
       unsigned_long_bits = 64,
       dbus_string_validate_utf8 = (\<lambda>bs. list_all (\<lambda>b. b < 0x80) bs) \<rparr>"

text \<open>
  Modelled from the spec: the type-code alphabet of \<open>dbus-protocol.h\<close>, which is not
  among the sources. The spec's scenarios write the array marker \<open>a\<close> and the struct
  delimiters \<open>(\<close> and \<open>)\<close>; the source names nul as \<open>DBUS_TYPE_INVALID\<close>; the
  other codes are the letters of the D-Bus wire protocol.
\<close>

definition DBUS_TYPE_INVALID :: byte where "DBUS_TYPE_INVALID = 0"
definition DBUS_TYPE_BYTE :: byte where "DBUS_TYPE_BYTE = 0x79"
definition DBUS_TYPE_BOOLEAN :: byte where "DBUS_TYPE_BOOLEAN = 0x62"
definition DBUS_TYPE_INT32 :: byte where "DBUS_TYPE_INT32 = 0x69"
definition DBUS_TYPE_UINT32 :: byte where "DBUS_TYPE_UINT32 = 0x75"
definition DBUS_TYPE_INT64 :: byte where "DBUS_TYPE_INT64 = 0x78"
definition DBUS_TYPE_UINT64 :: byte where "DBUS_TYPE_UINT64 = 0x74"
definition DBUS_TYPE_DOUBLE :: byte where "DBUS_TYPE_DOUBLE = 0x64"
definition DBUS_TYPE_STRING :: byte where "DBUS_TYPE_STRING = 0x73"
definition DBUS_TYPE_OBJECT_PATH :: byte where "DBUS_TYPE_OBJECT_PATH = 0x6F"
definition DBUS_TYPE_SIGNATURE :: byte where "DBUS_TYPE_SIGNATURE = 0x67"
definition DBUS_TYPE_ARRAY :: byte where "DBUS_TYPE_ARRAY = 0x61"
definition DBUS_TYPE_VARIANT :: byte where "DBUS_TYPE_VARIANT = 0x76"
definition DBUS_TYPE_STRUCT :: byte where "DBUS_TYPE_STRUCT = 0x72"
definition DBUS_STRUCT_BEGIN_CHAR :: byte where "DBUS_STRUCT_BEGIN_CHAR = 0x28"
definition DBUS_STRUCT_END_CHAR :: byte where "DBUS_STRUCT_END_CHAR = 0x29"

section \<open>The signature validator\<close>

text \<open>
  The \<open>switch\<close> of \<open>_dbus_validate_signature_with_reason\<close> on the byte \<open>c = *p\<close>:
  \<open>Inl v\<close> is \<open>return v\<close>, \<open>Inr (struct_depth, array_depth)\<close> is \<open>break\<close> with
  the counters as the case leaves them.
\<close>

definition signature_switch ::
  "dbus_params \<Rightarrow> byte \<Rightarrow> byte \<Rightarrow> nat \<Rightarrow> nat \<Rightarrow> DBusValidity + nat \<times> nat" where
  "signature_switch P c last_code struct_depth array_depth =
     (if c = DBUS_TYPE_BYTE \<or> c = DBUS_TYPE_BOOLEAN \<or> c = DBUS_TYPE_INT32
         \<or> c = DBUS_TYPE_UINT32 \<or> c = DBUS_TYPE_INT64 \<or> c = DBUS_TYPE_UINT64
         \<or> c = DBUS_TYPE_DOUBLE \<or> c = DBUS_TYPE_STRING \<or> c = DBUS_TYPE_OBJECT_PATH
         \<or> c = DBUS_TYPE_SIGNATURE \<or> c = DBUS_TYPE_VARIANT
      then Inr (struct_depth, array_depth)
      else if c = DBUS_TYPE_ARRAY then
        (if array_depth + 1 > DBUS_MAXIMUM_TYPE_RECURSION_DEPTH P
         then Inl DBUS_INVALID_EXCEEDED_MAXIMUM_ARRAY_RECURSION
         else Inr (struct_depth, array_depth + 1))
      else if c = DBUS_STRUCT_BEGIN_CHAR then
        (if struct_depth + 1 > DBUS_MAXIMUM_TYPE_RECURSION_DEPTH P
         then Inl DBUS_INVALID_EXCEEDED_MAXIMUM_STRUCT_RECURSION
         else Inr (struct_depth + 1, array_depth))
      else if c = DBUS_STRUCT_END_CHAR then
        (if struct_depth = 0 then Inl DBUS_INVALID_STRUCT_ENDED_BUT_NOT_STARTED
         else if last_code = DBUS_STRUCT_BEGIN_CHAR then Inl DBUS_INVALID_STRUCT_HAS_NO_FIELDS
         else Inr (struct_depth - 1, array_depth))
      else Inl DBUS_INVALID_UNKNOWN_TYPECODE)"

text \<open>
  The loop \<open>while (p != end)\<close>. \<open>Inl v\<close> is a \<open>return v\<close> from inside the loop,
  \<open>Inr (struct_depth, array_depth)\<close> the counters when the loop is left at \<open>p = end\<close>.
\<close>

partial_function (option) signature_loop ::
  "dbus_params \<Rightarrow> byte list \<Rightarrow> nat \<Rightarrow> nat \<Rightarrow> byte \<Rightarrow> nat \<Rightarrow> nat \<Rightarrow> trace
     \<Rightarrow> ((DBusValidity + nat \<times> nat) outcome \<times> trace) option" where
  "signature_loop P type_str p end last_code struct_depth array_depth tr =
     (if p \<noteq> end then
        (case peek type_str p of
           None \<Rightarrow> Some (ReadFault, tr @ [p])
         | Some c \<Rightarrow>
             (case signature_switch P c last_code struct_depth array_depth of
                Inl v \<Rightarrow> Some (Returns (Inl v), tr @ [p])
              | Inr (sd, ad) \<Rightarrow>
                  signature_loop P type_str (p + 1) end c sd
                    (if c \<noteq> DBUS_TYPE_ARRAY then 0 else ad) (tr @ [p])))
      else Some (Returns (Inr (struct_depth, array_depth)), tr))"

declare signature_loop.simps [code]

text \<open>
  Modelled from the spec: \<open>_dbus_string_get_const_data_len\<close> of \<open>dbus-string.c\<close>,
  which is not among the sources: the pointer to the byte at \<open>start\<close>, for a range of
  \<open>len\<close> bytes that lies in the string. The pointer is the index \<open>start\<close>; what is
  modelled is whether the assertions on the range hold.
\<close>

definition dbus_string_get_const_data_len :: "byte list \<Rightarrow> nat \<Rightarrow> nat \<Rightarrow> bool" where
  "dbus_string_get_const_data_len str start len \<longleftrightarrow>
     start \<le> length str \<and> int len \<le> int (length str) - int start"

definition dbus_validate_signature_with_reason ::
  "dbus_params \<Rightarrow> byte list \<Rightarrow> nat \<Rightarrow> nat \<Rightarrow> (DBusValidity outcome \<times> trace) option" where
  "dbus_validate_signature_with_reason P type_str type_pos len =
     (if \<not> int type_pos < int (DBUS_INT_MAX P) - int len then Some (AssertionFailed, [])
      else if len > DBUS_MAXIMUM_SIGNATURE_LENGTH P
      then Some (Returns DBUS_INVALID_SIGNATURE_TOO_LONG, [])
      else if \<not> dbus_string_get_const_data_len type_str type_pos 0
            \<or> \<not> dbus_string_get_const_data_len type_str (type_pos + len) 0
      then Some (AssertionFailed, [])
      else
        (case signature_loop P type_str type_pos (type_pos + len) DBUS_TYPE_INVALID 0 0 [] of
           None \<Rightarrow> None
         | Some (Returns (Inl v), tr) \<Rightarrow> Some (Returns v, tr)
         | Some (Returns (Inr (struct_depth, array_depth)), tr) \<Rightarrow>
             (if array_depth > 0 then Some (Returns DBUS_INVALID_MISSING_ARRAY_ELEMENT_TYPE, tr)
              else if struct_depth > 0
              then Some (Returns DBUS_INVALID_STRUCT_STARTED_BUT_NOT_ENDED, tr)
              else Some (Returns DBUS_VALID, tr))
         | Some (AssertionFailed, tr) \<Rightarrow> Some (AssertionFailed, tr)
         | Some (ReadFault, tr) \<Rightarrow> Some (ReadFault, tr)))"

definition dbus_validate_signature ::
  "dbus_params \<Rightarrow> byte list \<Rightarrow> nat \<Rightarrow> nat \<Rightarrow> (bool outcome \<times> trace) option" where
  "dbus_validate_signature P str start len =
     (if \<not> start \<le> length str then Some (AssertionFailed, [])
      else if int len > int (length str) - int start then Some (Returns False, [])
      else
        (case dbus_validate_signature_with_reason P str start len of
           None \<Rightarrow> None
         | Some (Returns v, tr) \<Rightarrow> Some (Returns (v = DBUS_VALID), tr)
         | Some (AssertionFailed, tr) \<Rightarrow> Some (AssertionFailed, tr)
         | Some (ReadFault, tr) \<Rightarrow> Some (ReadFault, tr)))"

section \<open>The name validators\<close>

definition VALID_INITIAL_NAME_CHARACTER :: "byte \<Rightarrow> bool" where
  "VALID_INITIAL_NAME_CHARACTER c \<longleftrightarrow>
     (0x41 \<le> c \<and> c \<le> 0x5A) \<or> (0x61 \<le> c \<and> c \<le> 0x7A) \<or> c = 0x5F"

definition VALID_NAME_CHARACTER :: "byte \<Rightarrow> bool" where
  "VALID_NAME_CHARACTER c \<longleftrightarrow>
     (0x30 \<le> c \<and> c \<le> 0x39) \<or> (0x41 \<le> c \<and> c \<le> 0x5A) \<or> (0x61 \<le> c \<and> c \<le> 0x7A)
       \<or> c = 0x5F"

definition slash :: byte where "slash = 0x2F"
definition dot :: byte where "dot = 0x2E"
definition colon :: byte where "colon = 0x3A"

text \<open>
  The loop of \<open>_dbus_validate_path\<close> with the check of the trailing slash that follows
  it; \<open>s - last_slash\<close> and \<open>end - last_slash\<close> are differences of pointers.
\<close>

partial_function (option) path_loop ::
  "byte list \<Rightarrow> nat \<Rightarrow> nat \<Rightarrow> nat \<Rightarrow> nat \<Rightarrow> trace \<Rightarrow> (bool outcome \<times> trace) option" where
  "path_loop str len s end last_slash tr =
     (if s \<noteq> end then
        (case peek str s of
           None \<Rightarrow> Some (ReadFault, tr @ [s])
         | Some c \<Rightarrow>
             if c = slash then
               (if int s - int last_slash < 2 then Some (Returns False, tr @ [s])
                else path_loop str len (s + 1) end s (tr @ [s]))
             else if \<not> VALID_NAME_CHARACTER c then Some (Returns False, tr @ [s])
             else path_loop str len (s + 1) end last_slash (tr @ [s]))
      else if int end - int last_slash < 2 \<and> len > 1 then Some (Returns False, tr)
      else Some (Returns True, tr))"

declare path_loop.simps [code]

definition dbus_validate_path ::
  "byte list \<Rightarrow> nat \<Rightarrow> nat \<Rightarrow> (bool outcome \<times> trace) option" where
  "dbus_validate_path str start len =
     (if \<not> start \<le> length str then Some (AssertionFailed, [])
      else if int len > int (length str) - int start then Some (Returns False, [])
      else if len = 0 then Some (Returns False, [])
      else
        (case peek str start of
           None \<Rightarrow> Some (ReadFault, [start])
         | Some c \<Rightarrow>
             if c \<noteq> slash then Some (Returns False, [start])
             else path_loop str len (start + 1) (start + len) start [start]))"

text \<open>The loop of \<open>_dbus_validate_interface\<close> with the check of \<open>last_dot\<close> after it.\<close>

partial_function (option) interface_loop ::
  "byte list \<Rightarrow> nat \<Rightarrow> nat \<Rightarrow> nat option \<Rightarrow> trace \<Rightarrow> (bool outcome \<times> trace) option" where
  "interface_loop str s end last_dot tr =
     (if s \<noteq> end then
        (case peek str s of
           None \<Rightarrow> Some (ReadFault, tr @ [s])
         | Some c \<Rightarrow>
             if c = dot then
               (if s + 1 = end then Some (Returns False, tr @ [s])
                else
                  (case peek str (s + 1) of
                     None \<Rightarrow> Some (ReadFault, tr @ [s, s + 1])
                   | Some d \<Rightarrow>
                       if \<not> VALID_INITIAL_NAME_CHARACTER d
                       then Some (Returns False, tr @ [s, s + 1])
                       else interface_loop str (s + 1 + 1) end (Some s) (tr @ [s, s + 1])))
             else if \<not> VALID_NAME_CHARACTER c then Some (Returns False, tr @ [s])
             else interface_loop str (s + 1) end last_dot (tr @ [s]))
      else if last_dot = None then Some (Returns False, tr)
      else Some (Returns True, tr))"

declare interface_loop.simps [code]

definition dbus_validate_interface ::
  "dbus_params \<Rightarrow> byte list \<Rightarrow> nat \<Rightarrow> nat \<Rightarrow> (bool outcome \<times> trace) option" where
  "dbus_validate_interface P str start len =
     (if \<not> start \<le> length str then Some (AssertionFailed, [])
      else if int len > int (length str) - int start then Some (Returns False, [])
      else if len > DBUS_MAXIMUM_NAME_LENGTH P then Some (Returns False, [])
      else if len = 0 then Some (Returns False, [])
      else
        (case peek str start of
           None \<Rightarrow> Some (ReadFault, [start])
         | Some c \<Rightarrow>
             if c = dot then Some (Returns False, [start])
             else if \<not> VALID_INITIAL_NAME_CHARACTER c then Some (Returns False, [start])
             else interface_loop str (start + 1) (start + len) None [start]))"

partial_function (option) member_loop ::
  "byte list \<Rightarrow> nat \<Rightarrow> nat \<Rightarrow> trace \<Rightarrow> (bool outcome \<times> trace) option" where
  "member_loop str s end tr =
     (if s \<noteq> end then
        (case peek str s of
           None \<Rightarrow> Some (ReadFault, tr @ [s])
         | Some c \<Rightarrow>
             if \<not> VALID_NAME_CHARACTER c then Some (Returns False, tr @ [s])
             else member_loop str (s + 1) end (tr @ [s]))
      else Some (Returns True, tr))"

declare member_loop.simps [code]

definition dbus_validate_member ::
  "dbus_params \<Rightarrow> byte list \<Rightarrow> nat \<Rightarrow> nat \<Rightarrow> (bool outcome \<times> trace) option" where
  "dbus_validate_member P str start len =
     (if \<not> start \<le> length str then Some (AssertionFailed, [])
      else if int len > int (length str) - int start then Some (Returns False, [])
      else if len > DBUS_MAXIMUM_NAME_LENGTH P then Some (Returns False, [])
      else if len = 0 then Some (Returns False, [])
      else
        (case peek str start of
           None \<Rightarrow> Some (ReadFault, [start])
         | Some c \<Rightarrow>
             if \<not> VALID_INITIAL_NAME_CHARACTER c then Some (Returns False, [start])
             else member_loop str (start + 1) (start + len) [start]))"

definition dbus_validate_error_name ::
  "dbus_params \<Rightarrow> byte list \<Rightarrow> nat \<Rightarrow> nat \<Rightarrow> (bool outcome \<times> trace) option" where
  "dbus_validate_error_name P str start len = dbus_validate_interface P str start len"

partial_function (option) unique_name_loop ::
  "byte list \<Rightarrow> nat \<Rightarrow> nat \<Rightarrow> trace \<Rightarrow> (bool outcome \<times> trace) option" where
  "unique_name_loop str s end tr =
     (if s \<noteq> end then
        (case peek str s of
           None \<Rightarrow> Some (ReadFault, tr @ [s])
         | Some c \<Rightarrow>
             if c = dot then
               (if s + 1 = end then Some (Returns False, tr @ [s])
                else
                  (case peek str (s + 1) of
                     None \<Rightarrow> Some (ReadFault, tr @ [s, s + 1])
                   | Some d \<Rightarrow>
                       if \<not> VALID_NAME_CHARACTER d then Some (Returns False, tr @ [s, s + 1])
                       else unique_name_loop str (s + 1 + 1) end (tr @ [s, s + 1])))
             else if \<not> VALID_NAME_CHARACTER c then Some (Returns False, tr @ [s])
             else unique_name_loop str (s + 1) end (tr @ [s]))
      else Some (Returns True, tr))"

declare unique_name_loop.simps [code]

text \<open>
  \<open>_dbus_validate_unique_name\<close> asserts \<open>len > 0\<close> and \<open>*name == ':'\<close>; the second
  assertion reads the first byte.
\<close>

definition dbus_validate_unique_name ::
  "dbus_params \<Rightarrow> byte list \<Rightarrow> nat \<Rightarrow> nat \<Rightarrow> (bool outcome \<times> trace) option" where
  "dbus_validate_unique_name P str start len =
     (if \<not> start \<le> length str then Some (AssertionFailed, [])
      else if int len > int (length str) - int start then Some (Returns False, [])
      else if len > DBUS_MAXIMUM_NAME_LENGTH P then Some (Returns False, [])
      else if \<not> len > 0 then Some (AssertionFailed, [])
      else
        (case peek str start of
           None \<Rightarrow> Some (ReadFault, [start])
         | Some c \<Rightarrow>
             if c \<noteq> colon then Some (AssertionFailed, [start])
             else unique_name_loop str (start + 1) (start + len) [start]))"

text \<open>
  Modelled from the spec: \<open>_dbus_string_get_byte\<close> of \<open>dbus-string.c\<close>, the byte-at
  operation of the byte-range abstraction, which is not among the sources. It is given
  an index inside the string.
\<close>

definition dbus_string_get_byte :: "byte list \<Rightarrow> nat \<Rightarrow> byte outcome" where
  "dbus_string_get_byte str i = (if i < length str then Returns (str ! i) else AssertionFailed)"

definition dbus_validate_bus_name ::
  "dbus_params \<Rightarrow> byte list \<Rightarrow> nat \<Rightarrow> nat \<Rightarrow> (bool outcome \<times> trace) option" where
  "dbus_validate_bus_name P str start len =
     (if len = 0 then Some (Returns False, [])
      else
        (case dbus_string_get_byte str start of
           Returns c \<Rightarrow>
             (case (if c = colon then dbus_validate_unique_name P str start len
                    else dbus_validate_interface P str start len) of
                None \<Rightarrow> None
              | Some (r, tr) \<Rightarrow> Some (r, start # tr))
         | AssertionFailed \<Rightarrow> Some (AssertionFailed, [])
         | ReadFault \<Rightarrow> Some (ReadFault, [])))"

section \<open>The body validator\<close>

subsection \<open>External collaborators\<close>

text \<open>
  Modelled from the spec: the type reader of \<open>dbus-marshal-recursive.c\<close>, which is not
  among the sources: a cursor over a validated signature that gives the current type code
  (or none), the element type of the array it points at, a fresh cursor inside a
  container, and the move to the next type. The cursor holds the type codes from its
  position on; the codes of a signature are followed by its terminating nul,
  \<open>DBUS_TYPE_INVALID\<close>.
\<close>

datatype reader_class = BodyReader | StructReader | ArrayReader

record DBusTypeReader =
  klass :: reader_class
  codes :: "byte list"
  finished :: bool

definition dbus_first_type_in_signature :: "byte list \<Rightarrow> byte" where
  "dbus_first_type_in_signature cs =
     (case cs of
        [] \<Rightarrow> DBUS_TYPE_INVALID
      | c # _ \<Rightarrow> if c = DBUS_STRUCT_BEGIN_CHAR then DBUS_TYPE_STRUCT else c)"

definition dbus_type_reader_init_types_only :: "byte list \<Rightarrow> nat \<Rightarrow> DBusTypeReader" where
  "dbus_type_reader_init_types_only type_str type_pos =
     \<lparr> klass = BodyReader, codes = drop type_pos type_str, finished = False \<rparr>"

definition dbus_type_reader_get_current_type :: "DBusTypeReader \<Rightarrow> byte" where
  "dbus_type_reader_get_current_type reader =
     (if finished reader then DBUS_TYPE_INVALID
      else if klass reader = StructReader \<and> codes reader \<noteq> []
              \<and> hd (codes reader) = DBUS_STRUCT_END_CHAR
      then DBUS_TYPE_INVALID
      else dbus_first_type_in_signature (codes reader))"

definition dbus_type_reader_get_element_type :: "DBusTypeReader \<Rightarrow> byte" where
  "dbus_type_reader_get_element_type reader = dbus_first_type_in_signature (tl (codes reader))"

definition dbus_type_reader_recurse :: "DBusTypeReader \<Rightarrow> DBusTypeReader" where
  "dbus_type_reader_recurse reader =
     \<lparr> klass = (if dbus_type_reader_get_current_type reader = DBUS_TYPE_STRUCT
                then StructReader else ArrayReader),
       codes = tl (codes reader), finished = False \<rparr>"

fun skip_struct_rest :: "nat \<Rightarrow> byte list \<Rightarrow> byte list" where
  "skip_struct_rest depth [] = []"
| "skip_struct_rest depth (c # cs) =
     (if c = DBUS_STRUCT_BEGIN_CHAR then skip_struct_rest (depth + 1) cs
      else if c = DBUS_STRUCT_END_CHAR then
        (if depth \<le> 1 then cs else skip_struct_rest (depth - 1) cs)
      else skip_struct_rest depth cs)"

definition skip_one_complete_type :: "byte list \<Rightarrow> byte list" where
  "skip_one_complete_type cs =
     (case dropWhile (\<lambda>c. c = DBUS_TYPE_ARRAY) cs of
        [] \<Rightarrow> []
      | c # rest \<Rightarrow> if c = DBUS_STRUCT_BEGIN_CHAR then skip_struct_rest 1 rest else rest)"

text \<open>The reader after \<open>_dbus_type_reader_next\<close>, and what the call returns.\<close>

definition dbus_type_reader_next :: "DBusTypeReader \<Rightarrow> bool \<times> DBusTypeReader" where
  "dbus_type_reader_next reader =
     (if dbus_type_reader_get_current_type reader = DBUS_TYPE_INVALID then (False, reader)
      else
        (let reader' =
           (case klass reader of
              BodyReader \<Rightarrow> reader\<lparr>codes := skip_one_complete_type (codes reader)\<rparr>
            | StructReader \<Rightarrow> reader\<lparr>codes := skip_one_complete_type (codes reader)\<rparr>
            | ArrayReader \<Rightarrow> reader\<lparr>finished := True\<rparr>)
         in (dbus_type_reader_get_current_type reader' \<noteq> DBUS_TYPE_INVALID, reader')))"

text \<open>
  Modelled from the spec: \<open>_dbus_type_get_alignment\<close> of \<open>dbus-marshal-basic.c\<close>,
  which is not among the sources: the alignments are 1, 4 and 8; byte, signature and
  variant are unaligned, boolean, int32, uint32, string, object path and array align to 4,
  int64, uint64, double and struct to 8. On anything else the function has no value.
\<close>

definition dbus_type_get_alignment :: "byte \<Rightarrow> nat option" where
  "dbus_type_get_alignment typecode =
     (if typecode = DBUS_TYPE_BYTE \<or> typecode = DBUS_TYPE_VARIANT
         \<or> typecode = DBUS_TYPE_SIGNATURE then Some 1
      else if typecode = DBUS_TYPE_BOOLEAN \<or> typecode = DBUS_TYPE_INT32
         \<or> typecode = DBUS_TYPE_UINT32 \<or> typecode = DBUS_TYPE_STRING
         \<or> typecode = DBUS_TYPE_OBJECT_PATH \<or> typecode = DBUS_TYPE_ARRAY then Some 4
      else if typecode = DBUS_TYPE_INT64 \<or> typecode = DBUS_TYPE_UINT64
         \<or> typecode = DBUS_TYPE_DOUBLE \<or> typecode = DBUS_TYPE_STRUCT then Some 8
      else None)"

text \<open>
  Modelled from the spec: the macro \<open>_DBUS_ALIGN_ADDRESS\<close> of \<open>dbus-internals.h\<close>,
  which is not among the sources: the next multiple of the boundary at or after \<open>p\<close>. The
  data of a string starts at an 8-aligned address, so an index is aligned when its
  address is.
\<close>

definition DBUS_ALIGN_ADDRESS :: "nat \<Rightarrow> nat \<Rightarrow> nat" where
  "DBUS_ALIGN_ADDRESS p boundary = ((p + (boundary - 1)) div boundary) * boundary"

text \<open>
  Modelled from the spec: \<open>_dbus_unpack_uint32\<close> of \<open>dbus-marshal-basic.c\<close>, which is
  not among the sources: the four bytes at \<open>p\<close> as an unsigned 32-bit number in the
  byte order of the message.
\<close>

datatype byte_order = DBUS_LITTLE_ENDIAN | DBUS_BIG_ENDIAN

definition dbus_unpack_uint32 :: "byte_order \<Rightarrow> byte list \<Rightarrow> nat \<Rightarrow> nat option" where
  "dbus_unpack_uint32 order mem p =
     (if p + 3 < length mem then
        (case order of
           DBUS_LITTLE_ENDIAN \<Rightarrow>
             Some (unat (mem ! p) + 256 * unat (mem ! (p + 1)) + 65536 * unat (mem ! (p + 2))
                   + 16777216 * unat (mem ! (p + 3)))
         | DBUS_BIG_ENDIAN \<Rightarrow>
             Some (unat (mem ! (p + 3)) + 256 * unat (mem ! (p + 2)) + 65536 * unat (mem ! (p + 1))
                   + 16777216 * unat (mem ! p)))
      else None)"

text \<open>
  Modelled from the spec: \<open>_dbus_string_init_const_len\<close> of \<open>dbus-string.c\<close>, which is
  not among the sources: the zero-copy view of \<open>n\<close> bytes at \<open>p\<close>. An index \<open>i\<close> of the
  view is the index \<open>p + i\<close> of the memory it views.
\<close>

definition dbus_string_init_const_len :: "byte list \<Rightarrow> nat \<Rightarrow> nat \<Rightarrow> byte list option" where
  "dbus_string_init_const_len mem p n =
     (if p + n \<le> length mem then Some (take n (drop p mem)) else None)"

subsection \<open>\<open>validate_body_helper\<close>\<close>

text \<open>
  \<open>(unsigned long) (end - p)\<close>: the difference of the pointers, which is negative when
  \<open>p\<close> is past \<open>end\<close>, converted to \<open>unsigned long\<close>.
\<close>

definition unsigned_long_diff :: "dbus_params \<Rightarrow> nat \<Rightarrow> nat \<Rightarrow> nat" where
  "unsigned_long_diff P end p =
     (if p \<le> end then end - p else 2 ^ unsigned_long_bits P - (p - end))"

text \<open>
  Inside the body of the loop of \<open>validate_body_helper\<close>, \<open>Return v\<close> is the statement
  \<open>return v\<close> and \<open>Next p\<close> is control going on with the cursor at \<open>p\<close>.
\<close>

datatype step = Return DBusValidity | Next nat

type_synonym stepped = "(step outcome \<times> trace) option"

definition then_step :: "stepped \<Rightarrow> (nat \<Rightarrow> trace \<Rightarrow> stepped) \<Rightarrow> stepped" where
  "then_step m f =
     (case m of
        None \<Rightarrow> None
      | Some (Returns (Next p), tr) \<Rightarrow> f p tr
      | Some (Returns (Return v), tr) \<Rightarrow> Some (Returns (Return v), tr)
      | Some (AssertionFailed, tr) \<Rightarrow> Some (AssertionFailed, tr)
      | Some (ReadFault, tr) \<Rightarrow> Some (ReadFault, tr))"

text \<open>The loop \<open>while (p != a)\<close> over the alignment padding.\<close>

partial_function (option) padding_loop ::
  "byte list \<Rightarrow> nat \<Rightarrow> nat \<Rightarrow> trace \<Rightarrow> (step outcome \<times> trace) option" where
  "padding_loop mem p a tr =
     (if p \<noteq> a then
        (case peek mem p of
           None \<Rightarrow> Some (ReadFault, tr @ [p])
         | Some c \<Rightarrow>
             if c \<noteq> 0 then Some (Returns (Return DBUS_INVALID_ALIGNMENT_PADDING_NOT_NUL), tr @ [p])
             else padding_loop mem (p + 1) a (tr @ [p]))
      else Some (Returns (Next p), tr))"

declare padding_loop.simps [code]

text \<open>
  A call \<open>validity = validate_body_helper (..., p, end, &p)\<close> followed by
  \<open>if (validity != DBUS_VALID) return validity\<close>: the callee has written the new
  cursor through \<open>new_p\<close> when its second component is \<open>Some\<close>.
\<close>

definition after_call ::
  "nat \<Rightarrow> ((DBusValidity \<times> nat option) outcome \<times> trace) option \<Rightarrow> stepped" where
  "after_call p r =
     (case r of
        None \<Rightarrow> None
      | Some (Returns (validity, new_p), tr) \<Rightarrow>
          if validity \<noteq> DBUS_VALID then Some (Returns (Return validity), tr)
          else Some (Returns (Next (case new_p of None \<Rightarrow> p | Some p' \<Rightarrow> p')), tr)
      | Some (AssertionFailed, tr) \<Rightarrow> Some (AssertionFailed, tr)
      | Some (ReadFault, tr) \<Rightarrow> Some (ReadFault, tr))"

text \<open>A validator of this file run on a view at \<open>p\<close>: its reads are reads of the memory.\<close>

definition on_view ::
  "nat \<Rightarrow> (bool outcome \<times> trace) option \<Rightarrow> trace \<Rightarrow> DBusValidity \<Rightarrow> nat \<Rightarrow> stepped" where
  "on_view p r tr invalid p' =
     (case r of
        None \<Rightarrow> None
      | Some (Returns ok, vtr) \<Rightarrow>
          if \<not> ok then Some (Returns (Return invalid), tr @ map (\<lambda>i. p + i) vtr)
          else Some (Returns (Next p'), tr @ map (\<lambda>i. p + i) vtr)
      | Some (AssertionFailed, vtr) \<Rightarrow> Some (AssertionFailed, tr @ map (\<lambda>i. p + i) vtr)
      | Some (ReadFault, vtr) \<Rightarrow> Some (ReadFault, tr @ map (\<lambda>i. p + i) vtr))"

text \<open>
  \<open>validate_body_helper\<close> calls itself for the elements of an array, the value of a
  variant and the fields of a struct.

  \<open>validate_body_helper_switch\<close> is the \<open>switch (current_type)\<close> in the body of its
  loop. Its first two parameters stand for the calls it makes: \<open>helper sub walk p tr\<close>
  for \<open>validate_body_helper (&sub, byte_order, walk, p, end, &p)\<close>, and
  \<open>array_loop sub p array_end tr\<close> for the loop \<open>while (p < array_end)\<close> over the
  elements of an array.
\<close>

type_synonym helper_call =
  "DBusTypeReader \<Rightarrow> bool \<Rightarrow> nat \<Rightarrow> trace \<Rightarrow> ((DBusValidity \<times> nat option) outcome \<times> trace) option"

type_synonym array_loop_call = "DBusTypeReader \<Rightarrow> nat \<Rightarrow> nat \<Rightarrow> trace \<Rightarrow> stepped"

definition validate_body_helper_switch ::
  "helper_call \<Rightarrow> array_loop_call \<Rightarrow> dbus_params \<Rightarrow> DBusTypeReader \<Rightarrow> byte \<Rightarrow> byte_order
     \<Rightarrow> byte list \<Rightarrow> nat \<Rightarrow> nat \<Rightarrow> trace \<Rightarrow> stepped" where
  "validate_body_helper_switch helper array_loop P reader current_type order mem p end tr =
     (if current_type = DBUS_TYPE_BYTE then Some (Returns (Next (p + 1)), tr)
      else if current_type = DBUS_TYPE_BOOLEAN \<or> current_type = DBUS_TYPE_INT32
           \<or> current_type = DBUS_TYPE_UINT32 \<or> current_type = DBUS_TYPE_INT64
           \<or> current_type = DBUS_TYPE_UINT64 \<or> current_type = DBUS_TYPE_DOUBLE then
        (case dbus_type_get_alignment current_type of
           None \<Rightarrow> Some (AssertionFailed, tr)
         | Some alignment \<Rightarrow>
             (let a = DBUS_ALIGN_ADDRESS p alignment in
              if a \<ge> end then Some (Returns (Return DBUS_INVALID_NOT_ENOUGH_DATA), tr)
              else
                then_step (padding_loop mem p a tr) (\<lambda>p tr.
                  if current_type = DBUS_TYPE_BOOLEAN then
                    (case dbus_unpack_uint32 order mem p of
                       None \<Rightarrow> Some (ReadFault, tr @ [p, p + 1, p + 2, p + 3])
                     | Some v \<Rightarrow>
                         if \<not> (v = 0 \<or> v = 1)
                         then Some (Returns (Return DBUS_INVALID_BOOLEAN_NOT_ZERO_OR_ONE),
                                    tr @ [p, p + 1, p + 2, p + 3])
                         else Some (Returns (Next (p + alignment)), tr @ [p, p + 1, p + 2, p + 3]))
                  else Some (Returns (Next (p + alignment)), tr))))
      else if current_type = DBUS_TYPE_ARRAY \<or> current_type = DBUS_TYPE_STRING
           \<or> current_type = DBUS_TYPE_OBJECT_PATH then
        (let a = DBUS_ALIGN_ADDRESS p 4 in
         if a + 4 > end then Some (Returns (Return DBUS_INVALID_NOT_ENOUGH_DATA), tr)
         else
           then_step (padding_loop mem p a tr) (\<lambda>p tr.
             (case dbus_unpack_uint32 order mem p of
                None \<Rightarrow> Some (ReadFault, tr @ [p, p + 1, p + 2, p + 3])
              | Some claimed_len \<Rightarrow>
           then_step
             (let tr = tr @ [p, p + 1, p + 2, p + 3]; p = p + 4 in
              if \<not> p \<le> end then Some (AssertionFailed, tr)
              else if current_type = DBUS_TYPE_ARRAY then
                (case dbus_type_get_alignment (dbus_type_reader_get_element_type reader) of
                   None \<Rightarrow> Some (AssertionFailed, tr)
                 | Some alignment \<Rightarrow> Some (Returns (Next (DBUS_ALIGN_ADDRESS p alignment)), tr))
              else Some (Returns (Next p), tr)) (\<lambda>p tr.
           if claimed_len > unsigned_long_diff P end p
           then Some (Returns (Return DBUS_INVALID_STRING_LENGTH_OUT_OF_BOUNDS), tr)
           else
           then_step
             (if current_type = DBUS_TYPE_OBJECT_PATH then
                (case dbus_string_init_const_len mem p claimed_len of
                   None \<Rightarrow> Some (ReadFault, tr)
                 | Some str \<Rightarrow>
                     on_view p (dbus_validate_path str 0 (length str)) tr
                       DBUS_INVALID_BAD_PATH (p + claimed_len))
              else if current_type = DBUS_TYPE_STRING then
                (case dbus_string_init_const_len mem p claimed_len of
                   None \<Rightarrow> Some (ReadFault, tr)
                 | Some str \<Rightarrow>
                     if \<not> dbus_string_validate_utf8 P str
                     then Some (Returns (Return DBUS_INVALID_BAD_UTF8_IN_STRING), tr)
                     else Some (Returns (Next (p + claimed_len)), tr))
              else if current_type = DBUS_TYPE_ARRAY \<and> claimed_len > 0 then
                (let sub = dbus_type_reader_recurse reader;
                     array_end = p + claimed_len in
                 then_step (array_loop sub p array_end tr)
                   (\<lambda>p tr.
                      if p \<noteq> array_end
                      then Some (Returns (Return DBUS_INVALID_ARRAY_LENGTH_INCORRECT), tr)
                      else Some (Returns (Next p), tr)))
              else Some (Returns (Next p), tr)) (\<lambda>p tr.
           if current_type \<noteq> DBUS_TYPE_ARRAY then
             (if p = end then Some (Returns (Return DBUS_INVALID_NOT_ENOUGH_DATA), tr)
              else
                (case peek mem p of
                   None \<Rightarrow> Some (ReadFault, tr @ [p])
                 | Some c \<Rightarrow>
                     if c \<noteq> 0 then Some (Returns (Return DBUS_INVALID_STRING_MISSING_NUL), tr @ [p])
                     else Some (Returns (Next (p + 1)), tr @ [p])))
           else Some (Returns (Next p), tr))))))
      else if current_type = DBUS_TYPE_SIGNATURE then
        (case peek mem p of
           None \<Rightarrow> Some (ReadFault, tr @ [p])
         | Some c \<Rightarrow>
             (let claimed_len = unat c; tr = tr @ [p]; p = p + 1 in
              if claimed_len + 1 > unsigned_long_diff P end p
              then Some (Returns (Return DBUS_INVALID_SIGNATURE_LENGTH_OUT_OF_BOUNDS), tr)
              else
                (case dbus_string_init_const_len mem p claimed_len of
                   None \<Rightarrow> Some (ReadFault, tr)
                 | Some str \<Rightarrow>
                     then_step
                       (on_view p (dbus_validate_signature P str 0 (length str)) tr
                          DBUS_INVALID_BAD_SIGNATURE (p + claimed_len)) (\<lambda>p tr.
                     if \<not> p < end then Some (AssertionFailed, tr)
                     else
                       (case peek mem p of
                          None \<Rightarrow> Some (ReadFault, tr @ [p])
                        | Some c \<Rightarrow>
                            if c \<noteq> DBUS_TYPE_INVALID
                            then Some (Returns (Return DBUS_INVALID_SIGNATURE_MISSING_NUL), tr @ [p])
                            else Some (Returns (Next (p + 1)), tr @ [p]))))))
      else if current_type = DBUS_TYPE_VARIANT then
        (case peek mem p of
           None \<Rightarrow> Some (ReadFault, tr @ [p])
         | Some c \<Rightarrow>
             (let claimed_len = unat c; tr = tr @ [p]; p = p + 1 in
              if claimed_len + 1 > unsigned_long_diff P end p
              then Some (Returns (Return DBUS_INVALID_VARIANT_SIGNATURE_LENGTH_OUT_OF_BOUNDS), tr)
              else
                (case dbus_string_init_const_len mem p claimed_len of
                   None \<Rightarrow> Some (ReadFault, tr)
                 | Some sig \<Rightarrow>
                     then_step
                       (on_view p (dbus_validate_signature P sig 0 (length sig)) tr
                          DBUS_INVALID_VARIANT_SIGNATURE_BAD (p + claimed_len)) (\<lambda>p tr.
                     (case peek mem p of
                        None \<Rightarrow> Some (ReadFault, tr @ [p])
                      | Some c \<Rightarrow>
                     if c \<noteq> DBUS_TYPE_INVALID
                     then Some (Returns (Return DBUS_INVALID_VARIANT_SIGNATURE_MISSING_NUL), tr @ [p])
                     else
                     (let tr = tr @ [p]; p = p + 1 in
                      case dbus_type_get_alignment (dbus_first_type_in_signature sig) of
                        None \<Rightarrow> Some (AssertionFailed, tr)
                      | Some contained_alignment \<Rightarrow>
                     (let a = DBUS_ALIGN_ADDRESS p contained_alignment in
                      if a > end then Some (Returns (Return DBUS_INVALID_NOT_ENOUGH_DATA), tr)
                      else
                        then_step (padding_loop mem p a tr) (\<lambda>p tr.
                          (let sub = dbus_type_reader_init_types_only sig 0 in
                           if dbus_type_reader_get_current_type sub = DBUS_TYPE_INVALID
                           then Some (Returns (Return DBUS_INVALID_VARIANT_SIGNATURE_EMPTY), tr)
                           else
                             then_step
                               (after_call p
                                  (helper sub False p tr))
                               (\<lambda>p tr.
                                  if fst (dbus_type_reader_next sub)
                                  then Some (Returns (Return
                                    DBUS_INVALID_VARIANT_SIGNATURE_SPECIFIES_MULTIPLE_VALUES), tr)
                                  else if dbus_type_reader_get_current_type
                                            (snd (dbus_type_reader_next sub)) \<noteq> DBUS_TYPE_INVALID
                                  then Some (AssertionFailed, tr)
                                  else Some (Returns (Next p), tr)))))))))))
      else if current_type = DBUS_TYPE_STRUCT then
        (let a = DBUS_ALIGN_ADDRESS p 8 in
         if a > end then Some (Returns (Return DBUS_INVALID_NOT_ENOUGH_DATA), tr)
         else
           then_step (padding_loop mem p a tr) (\<lambda>p tr.
             (let sub = dbus_type_reader_recurse reader in
              after_call p (helper sub True p tr))))
      else Some (AssertionFailed, tr))"

text \<open>
  The model takes fuel: every call of \<open>validate_body_helper\<close> and every turn of a loop
  uses one unit, and \<open>None\<close> is the answer when the fuel runs out.
  \<open>validate_body_helper\<close> is the loop over the types of the reader and
  \<open>validate_body_helper_array_loop\<close> the loop over the elements of an array. The
  result of \<open>validate_body_helper\<close> is the validity it returns with the cursor it has
  stored through \<open>new_p\<close>, if it has stored one.
\<close>

fun validate_body_helper ::
    "nat \<Rightarrow> dbus_params \<Rightarrow> DBusTypeReader \<Rightarrow> byte_order \<Rightarrow> bool \<Rightarrow> byte list \<Rightarrow> nat \<Rightarrow> nat
       \<Rightarrow> trace \<Rightarrow> ((DBusValidity \<times> nat option) outcome \<times> trace) option"
  and validate_body_helper_array_loop ::
    "nat \<Rightarrow> dbus_params \<Rightarrow> DBusTypeReader \<Rightarrow> byte_order \<Rightarrow> byte list \<Rightarrow> nat \<Rightarrow> nat \<Rightarrow> nat
       \<Rightarrow> trace \<Rightarrow> stepped"
where
  "validate_body_helper 0 P reader order walk_reader_to_end mem p end tr = None"
| "validate_body_helper (Suc n) P reader order walk_reader_to_end mem p end tr =
     (let current_type = dbus_type_reader_get_current_type reader in
      if current_type \<noteq> DBUS_TYPE_INVALID then
        (if p = end then Some (Returns (DBUS_INVALID_NOT_ENOUGH_DATA, None), tr)
         else
           (case validate_body_helper_switch
                   (\<lambda>sub walk p tr. validate_body_helper n P sub order walk mem p end tr)
                   (\<lambda>sub p array_end tr.
                      validate_body_helper_array_loop n P sub order mem p end array_end tr)
                   P reader current_type order mem p end tr of
              None \<Rightarrow> None
            | Some (Returns (Return v), tr') \<Rightarrow> Some (Returns (v, None), tr')
            | Some (Returns (Next p'), tr') \<Rightarrow>
                if p' > end then Some (Returns (DBUS_INVALID_NOT_ENOUGH_DATA, None), tr')
                else if walk_reader_to_end
                then validate_body_helper n P (snd (dbus_type_reader_next reader)) order
                       walk_reader_to_end mem p' end tr'
                else Some (Returns (DBUS_VALID, Some p'), tr')
            | Some (AssertionFailed, tr') \<Rightarrow> Some (AssertionFailed, tr')
            | Some (ReadFault, tr') \<Rightarrow> Some (ReadFault, tr')))
      else Some (Returns (DBUS_VALID, Some p), tr))"
| "validate_body_helper_array_loop 0 P sub order mem p end array_end tr = None"
| "validate_body_helper_array_loop (Suc n) P sub order mem p end array_end tr =
     (if p < array_end then
        then_step (after_call p (validate_body_helper n P sub order False mem p end tr))
          (\<lambda>p tr. validate_body_helper_array_loop n P sub order mem p end array_end tr)
      else Some (Returns (Next p), tr))"

text \<open>
  \<open>_dbus_validate_body_with_reason\<close>. \<open>bytes_remaining\<close> is \<open>None\<close> for the NULL
  pointer and \<open>Some v\<close> for a pointer to an \<open>int\<close> that holds \<open>v\<close>; the result is
  the validity returned with the contents of that location after the call.
\<close>

definition dbus_validate_body_with_reason ::
  "nat \<Rightarrow> dbus_params \<Rightarrow> byte list \<Rightarrow> nat \<Rightarrow> byte_order \<Rightarrow> int option \<Rightarrow> byte list \<Rightarrow> nat \<Rightarrow> nat
     \<Rightarrow> ((DBusValidity \<times> int option) outcome \<times> trace) option" where
  "dbus_validate_body_with_reason fuel P expected_signature expected_signature_start order
       bytes_remaining value_str value_pos len =
     (if \<not> int value_pos \<le> int (length value_str) - int len then Some (AssertionFailed, [])
      else
        (let reader = dbus_type_reader_init_types_only expected_signature expected_signature_start;
             p = value_pos;
             end = p + len in
         case validate_body_helper fuel P reader order True value_str p end [] of
           None \<Rightarrow> None
         | Some (AssertionFailed, tr) \<Rightarrow> Some (AssertionFailed, tr)
         | Some (ReadFault, tr) \<Rightarrow> Some (ReadFault, tr)
         | Some (Returns (validity, new_p), tr) \<Rightarrow>
             if validity \<noteq> DBUS_VALID then Some (Returns (validity, bytes_remaining), tr)
             else
               (let p = (case new_p of None \<Rightarrow> p | Some p' \<Rightarrow> p') in
                if bytes_remaining \<noteq> None
                then Some (Returns (DBUS_VALID, Some (int end - int p)), tr)
                else if p < end then Some (Returns (DBUS_INVALID_TOO_MUCH_DATA, bytes_remaining), tr)
                else if \<not> p = end then Some (AssertionFailed, tr)
                else Some (Returns (DBUS_VALID, bytes_remaining), tr))))"

text \<open>
  A step that never is the statement \<open>return DBUS_VALID\<close>: every \<open>return\<close> inside the
  loop of \<open>validate_body_helper\<close> gives a failure code.
\<close>

definition never_returns_valid :: "stepped \<Rightarrow> bool" where
  "never_returns_valid m \<longleftrightarrow> (\<forall>tr. m \<noteq> Some (Returns (Return DBUS_VALID), tr))"

section \<open>The grammars of the names, as the specification words them\<close>

text \<open>
  An object path: not empty; starts with a slash; no two slashes in a row; no slash at the
  end unless the path is the single slash; every byte that is not a slash is an ASCII
  letter, digit or underscore.
\<close>

text \<open>
  The bytes of the class are listed here one by one; that the macro
  \<open>VALID_NAME_CHARACTER\<close> of the source accepts them and no other byte is a lemma.
\<close>

definition ascii_alphanumeric_or_underscore :: "byte \<Rightarrow> bool" where
  "ascii_alphanumeric_or_underscore c \<longleftrightarrow>
     c \<in> set (bytes (''abcdefghijklmnopqrstuvwxyz'' @ ''ABCDEFGHIJKLMNOPQRSTUVWXYZ''
                      @ ''0123456789'' @ ''_''))"

definition valid_object_path :: "byte list \<Rightarrow> bool" where
  "valid_object_path bs \<longleftrightarrow>
     bs \<noteq> [] \<and> hd bs = slash
     \<and> (\<forall>i \<in> {..< length bs - 1}. \<not> (bs ! i = slash \<and> bs ! (i + 1) = slash))
     \<and> (last bs = slash \<longrightarrow> length bs = 1)
     \<and> (\<forall>c \<in> set bs. c \<noteq> slash \<longrightarrow> ascii_alphanumeric_or_underscore c)"

text \<open>
  What follows the colon of a unique bus name, under the relaxed rule: every byte is a dot
  or a name character, digits included, and every dot is followed by a name character.
\<close>

definition relaxed_unique_name :: "byte list \<Rightarrow> bool" where
  "relaxed_unique_name bs \<longleftrightarrow>
     (\<forall>i \<in> {..< length bs}.
        if bs ! i = dot then i + 1 < length bs \<and> VALID_NAME_CHARACTER (bs ! (i + 1))
        else VALID_NAME_CHARACTER (bs ! i))"

lemmas typecode_defs =
  DBUS_TYPE_INVALID_def DBUS_TYPE_BYTE_def DBUS_TYPE_BOOLEAN_def DBUS_TYPE_INT32_def
  DBUS_TYPE_UINT32_def DBUS_TYPE_INT64_def DBUS_TYPE_UINT64_def DBUS_TYPE_DOUBLE_def
  DBUS_TYPE_STRING_def DBUS_TYPE_OBJECT_PATH_def DBUS_TYPE_SIGNATURE_def
  DBUS_TYPE_ARRAY_def DBUS_TYPE_VARIANT_def DBUS_TYPE_STRUCT_def
  DBUS_STRUCT_BEGIN_CHAR_def DBUS_STRUCT_END_CHAR_def

section \<open>The signature validator: counters, termination and reads\<close>

lemma signature_loop_returns:
  "p \<le> end \<Longrightarrow>
     \<exists>r tr'. signature_loop P str p end lastc sd ad tr = Some (r, tr')
       \<and> set tr' \<subseteq> set tr \<union> {p ..< end}
       \<and> (end \<le> length str \<longrightarrow> (\<exists>x. r = Returns x))"
proof (induction "end - p" arbitrary: p lastc sd ad tr)
  case 0
  then have "p = end" by simp
  then show ?case by (simp add: signature_loop.simps)
next
  case (Suc n)
  then have lt: "p < end" and n: "n = end - (p + 1)" and le: "p + 1 \<le> end" by simp_all
  show ?case
  proof (cases "peek str p")
    case None
    with lt show ?thesis
      by (subst signature_loop.simps) (auto simp: peek_def split: if_splits)
  next
    case (Some c)
    show ?thesis
    proof (cases "signature_switch P c lastc sd ad")
      case (Inl v)
      with Some lt show ?thesis
        by (subst signature_loop.simps) auto
    next
      case (Inr st)
      obtain sd' ad' where st: "st = (sd', ad')" by (cases st)
      from Suc.hyps(1) [OF n le, of c sd' "if c \<noteq> DBUS_TYPE_ARRAY then 0 else ad'" "tr @ [p]"]
      obtain r tr' where
        r: "signature_loop P str (p + 1) end c sd' (if c \<noteq> DBUS_TYPE_ARRAY then 0 else ad')
              (tr @ [p]) = Some (r, tr')"
        and t: "set tr' \<subseteq> set (tr @ [p]) \<union> {p + 1 ..< end}"
        and x: "end \<le> length str \<longrightarrow> (\<exists>x. r = Returns x)"
        by blast
      have "signature_loop P str p end lastc sd ad tr = Some (r, tr')"
        using lt Some Inr st r by (subst signature_loop.simps) simp
      moreover from t lt have "set tr' \<subseteq> set tr \<union> {p ..< end}" by auto
      ultimately show ?thesis using x by blast
    qed
  qed
qed


lemma signature_loop_end:
  "signature_loop P str end end lastc sd ad tr = Some (Returns (Inr (sd, ad)), tr)"
  by (simp add: signature_loop.simps)

lemma signature_loop_array:
  "peek str p = Some DBUS_TYPE_ARRAY \<Longrightarrow> p \<noteq> end \<Longrightarrow>
     signature_loop P str p end lastc sd ad tr =
       (if ad + 1 > DBUS_MAXIMUM_TYPE_RECURSION_DEPTH P
        then Some (Returns (Inl DBUS_INVALID_EXCEEDED_MAXIMUM_ARRAY_RECURSION), tr @ [p])
        else signature_loop P str (p + 1) end DBUS_TYPE_ARRAY sd (ad + 1) (tr @ [p]))"
  by (subst signature_loop.simps) (simp add: signature_switch_def typecode_defs)

lemma signature_switch_not_array:
  "c \<noteq> DBUS_TYPE_ARRAY \<Longrightarrow> signature_switch P c lastc sd ad = Inr (sd', ad')
     \<Longrightarrow> ad' = ad \<and> signature_switch P c lastc sd 0 = Inr (sd', 0)"
  by (auto simp: signature_switch_def split: if_splits)

lemma signature_loop_not_array:
  "peek str p = Some c \<Longrightarrow> c \<noteq> DBUS_TYPE_ARRAY \<Longrightarrow> p \<noteq> end \<Longrightarrow>
   signature_switch P c lastc sd ad = Inr (sd', ad') \<Longrightarrow>
     signature_loop P str p end lastc sd ad tr = signature_loop P str (p + 1) end c sd' 0 (tr @ [p])"
  by (subst signature_loop.simps) simp

lemma signature_loop_array_run:
  "(\<forall>i<k. peek str (p + i) = Some DBUS_TYPE_ARRAY) \<Longrightarrow> p + k \<le> end \<Longrightarrow>
   ad + k \<le> DBUS_MAXIMUM_TYPE_RECURSION_DEPTH P \<Longrightarrow>
     signature_loop P str p end lastc sd ad tr =
       signature_loop P str (p + k) end (if k = 0 then lastc else DBUS_TYPE_ARRAY) sd (ad + k)
         (tr @ [p ..< p + k])"
proof (induction k arbitrary: p lastc ad tr)
  case 0
  then show ?case by simp
next
  case (Suc k)
  from Suc.prems(1) have here: "peek str p = Some DBUS_TYPE_ARRAY"
    by (metis add.right_neutral zero_less_Suc)
  from Suc.prems(2) have ne: "p \<noteq> end" by simp
  from Suc.prems(3) have ok: "\<not> ad + 1 > DBUS_MAXIMUM_TYPE_RECURSION_DEPTH P" by simp
  have step: "signature_loop P str p end lastc sd ad tr
      = signature_loop P str (Suc p) end DBUS_TYPE_ARRAY sd (Suc ad) (tr @ [p])"
    using signature_loop_array [OF here ne, of P lastc sd ad tr] ok by simp
  have rest: "\<forall>i<k. peek str (Suc p + i) = Some DBUS_TYPE_ARRAY"
    using Suc.prems(1) by (metis Suc_less_eq add_Suc_right add_Suc_shift)
  from Suc.prems(2) have le: "Suc p + k \<le> end" by simp
  from Suc.prems(3) have d: "Suc ad + k \<le> DBUS_MAXIMUM_TYPE_RECURSION_DEPTH P" by simp
  have up: "[p ..< Suc (p + k)] = p # [Suc p ..< Suc (p + k)]"
    by (rule upt_conv_Cons) simp
  have "signature_loop P str (Suc p) end DBUS_TYPE_ARRAY sd (Suc ad) (tr @ [p])
      = signature_loop P str (Suc p + k) end DBUS_TYPE_ARRAY sd (Suc ad + k)
          ((tr @ [p]) @ [Suc p ..< Suc p + k])"
    using Suc.IH [OF rest le d, of DBUS_TYPE_ARRAY "tr @ [p]"] by (simp split: if_splits)
  with step show ?case
    by (simp add: up del: upt_Suc)
qed

lemma signature_loop_array_run_exceeds:
  assumes "\<forall>i<k. peek str (p + i) = Some DBUS_TYPE_ARRAY" and "p + k \<le> end"
    and "ad \<le> DBUS_MAXIMUM_TYPE_RECURSION_DEPTH P"
    and "DBUS_MAXIMUM_TYPE_RECURSION_DEPTH P < ad + k"
  shows "\<exists>tr'. signature_loop P str p end lastc sd ad tr
           = Some (Returns (Inl DBUS_INVALID_EXCEEDED_MAXIMUM_ARRAY_RECURSION), tr')"
proof -
  define j where "j = DBUS_MAXIMUM_TYPE_RECURSION_DEPTH P - ad"
  from assms(3,4) have jk: "j < k" and sum: "ad + j = DBUS_MAXIMUM_TYPE_RECURSION_DEPTH P"
    by (simp_all add: j_def)
  from assms(1) jk have pre: "\<forall>i<j. peek str (p + i) = Some DBUS_TYPE_ARRAY" by simp
  from assms(2) jk have le: "p + j \<le> end" and ne: "p + j \<noteq> end" by simp_all
  from sum have d: "ad + j \<le> DBUS_MAXIMUM_TYPE_RECURSION_DEPTH P" by simp
  from assms(1) jk have here: "peek str (p + j) = Some DBUS_TYPE_ARRAY" by simp
  have "signature_loop P str p end lastc sd ad tr
      = signature_loop P str (p + j) end (if j = 0 then lastc else DBUS_TYPE_ARRAY) sd (ad + j)
          (tr @ [p ..< p + j])"
    by (rule signature_loop_array_run [OF pre le d])
  also have "\<dots> = Some (Returns (Inl DBUS_INVALID_EXCEEDED_MAXIMUM_ARRAY_RECURSION),
                        (tr @ [p ..< p + j]) @ [p + j])"
    using signature_loop_array [OF here ne, of P _ sd "ad + j"] sum by simp
  finally show ?thesis by blast
qed

lemma signature_loop_scanned:
  "signature_loop P str p end lastc sd ad tr = Some (Returns (Inr x), tr') \<Longrightarrow> p < end
     \<Longrightarrow> end \<le> length str"
proof (induction "end - p" arbitrary: p lastc sd ad tr)
  case 0
  then show ?case by simp
next
  case (Suc n)
  from Suc.prems(2) have ne: "p \<noteq> end" by simp
  from Suc.prems(1) ne obtain c where c: "peek str p = Some c"
    by (subst (asm) signature_loop.simps) (auto split: option.splits)
  then have lt: "p < length str" by (simp add: peek_def split: if_splits)
  from Suc.prems(1) ne c obtain sd' ad' where
    sw: "signature_switch P c lastc sd ad = Inr (sd', ad')"
    by (subst (asm) signature_loop.simps) (auto split: sum.splits)
  from Suc.prems(1) ne c sw have
    r: "signature_loop P str (p + 1) end c sd' (if c \<noteq> DBUS_TYPE_ARRAY then 0 else ad')
          (tr @ [p]) = Some (Returns (Inr x), tr')"
    by (subst (asm) signature_loop.simps) simp
  show ?case
  proof (cases "p + 1 = end")
    case True
    with lt show ?thesis by simp
  next
    case False
    with Suc.prems(2) have lt': "p + 1 < end" by simp
    from Suc.hyps(2) have n: "n = end - (p + 1)" by simp
    from Suc.hyps(1) [OF n r lt'] show ?thesis .
  qed
qed

lemma validate_signature_after_loop:
  assumes "signature_loop P type_str type_pos (type_pos + len) DBUS_TYPE_INVALID 0 0 []
      = Some (Returns (Inr (sd, ad)), tr)"
    and "0 < ad \<or> 0 < sd"
    and "type_pos + len < DBUS_INT_MAX P" and "len \<le> DBUS_MAXIMUM_SIGNATURE_LENGTH P"
  shows "dbus_validate_signature_with_reason P type_str type_pos len =
     Some (Returns (if ad > 0 then DBUS_INVALID_MISSING_ARRAY_ELEMENT_TYPE
                    else DBUS_INVALID_STRUCT_STARTED_BUT_NOT_ENDED), tr)"
proof -
  have "len \<noteq> 0"
  proof
    assume "len = 0"
    with assms(1) have "sd = 0 \<and> ad = 0" by (simp add: signature_loop.simps)
    with assms(2) show False by simp
  qed
  then have "type_pos < type_pos + len" by simp
  with assms(1) have "type_pos + len \<le> length type_str" by (rule signature_loop_scanned)
  with assms show ?thesis
    by (auto simp: dbus_validate_signature_with_reason_def dbus_string_get_const_data_len_def)
qed



lemma sig_a: "dbus_validate_signature_with_reason dbus_lp64 (bytes ''a'') 0 1
   = Some (Returns DBUS_INVALID_MISSING_ARRAY_ELEMENT_TYPE, [0])"
  by (simp add: dbus_validate_signature_with_reason_def dbus_string_get_const_data_len_def
      dbus_lp64_def bytes_def signature_loop.simps peek_def signature_switch_def typecode_defs)



lemma run_peek:
  assumes "take k (drop p str) = replicate k c"
  shows "\<forall>i<k. peek str (p + i) = Some c" and "p + k \<le> length str \<or> k = 0"
proof -
  from assms have len: "length (take k (drop p str)) = k" by simp
  then have le: "k \<le> length str - p" by simp
  show "\<forall>i<k. peek str (p + i) = Some c"
  proof (intro allI impI)
    fix i assume i: "i < k"
    with le have in_range: "p + i < length str" by simp
    from i have "take k (drop p str) ! i = str ! (p + i)"
      using le by simp
    moreover from i assms have "take k (drop p str) ! i = c" by simp
    ultimately show "peek str (p + i) = Some c"
      using in_range by (simp add: peek_def)
  qed
  from le show "p + k \<le> length str \<or> k = 0" by (cases k) auto
qed

lemma array_depth_run:
  "take k (drop p str) = replicate k DBUS_TYPE_ARRAY \<Longrightarrow> p + k \<le> end
      \<Longrightarrow> ad + k \<le> DBUS_MAXIMUM_TYPE_RECURSION_DEPTH P \<Longrightarrow>
        signature_loop P str p end lastc sd ad tr =
          signature_loop P str (p + k) end (if k = 0 then lastc else DBUS_TYPE_ARRAY) sd (ad + k)
            (tr @ [p ..< p + k])"
  using run_peek(1) [of k p str DBUS_TYPE_ARRAY] by (intro signature_loop_array_run) simp_all

lemma array_depth_exceeds:
  "take k (drop p str) = replicate k DBUS_TYPE_ARRAY \<Longrightarrow> p + k \<le> end
      \<Longrightarrow> ad \<le> DBUS_MAXIMUM_TYPE_RECURSION_DEPTH P
      \<Longrightarrow> DBUS_MAXIMUM_TYPE_RECURSION_DEPTH P < ad + k \<Longrightarrow>
        \<exists>tr'. signature_loop P str p end lastc sd ad tr =
           Some (Returns (Inl DBUS_INVALID_EXCEEDED_MAXIMUM_ARRAY_RECURSION), tr')"
  using run_peek(1) [of k p str DBUS_TYPE_ARRAY] by (intro signature_loop_array_run_exceeds) simp_all

lemma missing_array_element_type:
  "signature_loop P str p (p + len) DBUS_TYPE_INVALID 0 0 [] = Some (Returns (Inr (sd, ad)), tr)
      \<Longrightarrow> 0 < ad \<Longrightarrow> p + len < DBUS_INT_MAX P \<Longrightarrow> len \<le> DBUS_MAXIMUM_SIGNATURE_LENGTH P \<Longrightarrow>
        dbus_validate_signature_with_reason P str p len =
          Some (Returns DBUS_INVALID_MISSING_ARRAY_ELEMENT_TYPE, tr)"
  by (simp add: validate_signature_after_loop)

lemma array_depth_exceeded_maximum:
  assumes run: "take k (drop p str) = replicate k DBUS_TYPE_ARRAY"
    and k: "k \<le> len" "DBUS_MAXIMUM_TYPE_RECURSION_DEPTH P < k"
    and range: "p + len \<le> length str"
    and pre: "p + len < DBUS_INT_MAX P" "len \<le> DBUS_MAXIMUM_SIGNATURE_LENGTH P"
  shows "\<exists>tr. dbus_validate_signature_with_reason P str p len =
     Some (Returns DBUS_INVALID_EXCEEDED_MAXIMUM_ARRAY_RECURSION, tr)"
proof -
  from k(1) have le: "p + k \<le> p + len" by simp
  from k(2) have gt: "DBUS_MAXIMUM_TYPE_RECURSION_DEPTH P < 0 + k" by simp
  from array_depth_exceeds [OF run le _ gt, of DBUS_TYPE_INVALID 0 "[]"]
  obtain tr where "signature_loop P str p (p + len) DBUS_TYPE_INVALID 0 0 [] =
      Some (Returns (Inl DBUS_INVALID_EXCEEDED_MAXIMUM_ARRAY_RECURSION), tr)"
    by auto
  with range pre show ?thesis
    by (simp add: dbus_validate_signature_with_reason_def dbus_string_get_const_data_len_def)
qed

lemma peek_append_here: "peek (xs @ c # ys) (length xs) = Some c"
  by (simp add: peek_def)

lemma array_depth_reset:
  assumes k: "k \<le> DBUS_MAXIMUM_TYPE_RECURSION_DEPTH P"
    and j: "j \<le> DBUS_MAXIMUM_TYPE_RECURSION_DEPTH P"
    and pre: "k + j + 2 < DBUS_INT_MAX P" "k + j + 2 \<le> DBUS_MAXIMUM_SIGNATURE_LENGTH P"
  shows "dbus_validate_signature_with_reason P
      (replicate k DBUS_TYPE_ARRAY @ [DBUS_TYPE_BYTE] @ replicate j DBUS_TYPE_ARRAY @ [DBUS_TYPE_BYTE])
      0 (k + j + 2) = Some (Returns DBUS_VALID, [0 ..< k + j + 2])"
proof -
  define str where
    "str = replicate k DBUS_TYPE_ARRAY @ [DBUS_TYPE_BYTE] @ replicate j DBUS_TYPE_ARRAY @ [DBUS_TYPE_BYTE]"
  define e where "e = k + j + 2"
  have len: "length str = e" by (simp add: str_def e_def)
  have ne: "DBUS_TYPE_BYTE \<noteq> DBUS_TYPE_ARRAY" by (simp add: typecode_defs)
  have sw: "signature_switch P DBUS_TYPE_BYTE c 0 ad = Inr (0, ad)" for c ad
    by (simp add: signature_switch_def typecode_defs)
  have run1: "take k (drop 0 str) = replicate k DBUS_TYPE_ARRAY" by (simp add: str_def)
  have at1: "peek str k = Some DBUS_TYPE_BYTE"
    using peek_append_here [of "replicate k DBUS_TYPE_ARRAY" DBUS_TYPE_BYTE
        "replicate j DBUS_TYPE_ARRAY @ [DBUS_TYPE_BYTE]"]
    by (simp add: str_def)
  have run2: "take j (drop (k + 1) str) = replicate j DBUS_TYPE_ARRAY" by (simp add: str_def)
  have at2: "peek str (k + 1 + j) = Some DBUS_TYPE_BYTE"
    using peek_append_here [of "replicate k DBUS_TYPE_ARRAY @ [DBUS_TYPE_BYTE] @ replicate j DBUS_TYPE_ARRAY"
        DBUS_TYPE_BYTE "[]"]
    by (simp add: str_def)
  have s1: "signature_loop P str 0 e DBUS_TYPE_INVALID 0 0 [] =
      signature_loop P str k e (if k = 0 then DBUS_TYPE_INVALID else DBUS_TYPE_ARRAY) 0 k [0 ..< k]"
    using array_depth_run [OF run1, of e 0 P DBUS_TYPE_INVALID 0 "[]"] k by (simp add: e_def)
  have s2: "signature_loop P str k e c 0 k tr = signature_loop P str (k + 1) e DBUS_TYPE_BYTE 0 0 (tr @ [k])"
    for c tr
    by (rule signature_loop_not_array [OF at1 ne _ sw]) (simp add: e_def)
  have s3: "signature_loop P str (k + 1) e DBUS_TYPE_BYTE 0 0 tr =
      signature_loop P str (k + 1 + j) e (if j = 0 then DBUS_TYPE_BYTE else DBUS_TYPE_ARRAY) 0 j
        (tr @ [k + 1 ..< k + 1 + j])" for tr
    using array_depth_run [OF run2, of e 0 P DBUS_TYPE_BYTE 0 tr] j by (simp add: e_def)
  have s4: "signature_loop P str (k + 1 + j) e c 0 j tr = signature_loop P str e e DBUS_TYPE_BYTE 0 0 (tr @ [k + 1 + j])"
    for c tr
    using signature_loop_not_array [OF at2 ne _ sw, of e c j tr] by (simp add: e_def)
  have tr: "(([0 ..< k] @ [k]) @ [k + 1 ..< k + 1 + j]) @ [k + 1 + j] = [0 ..< e]"
  proof -
    have "[0 ..< e] = [0 ..< k] @ [k ..< e]"
      using upt_add_eq_append [of 0 k "j + 2"] by (simp add: e_def del: upt_Suc)
    also have "[k ..< e] = k # [k + 1 ..< e]"
      using upt_conv_Cons [of k e] by (simp add: e_def)
    also have "[k + 1 ..< e] = [k + 1 ..< k + 1 + j] @ [k + 1 + j ..< e]"
      using upt_add_eq_append [of "k + 1" "k + 1 + j" 1] by (simp add: e_def del: upt_Suc)
    also have "[k + 1 + j ..< e] = [k + 1 + j]"
      using upt_conv_Cons [of "k + 1 + j" e] by (simp add: e_def)
    finally show ?thesis by simp
  qed
  have "signature_loop P str 0 e DBUS_TYPE_INVALID 0 0 [] = Some (Returns (Inr (0, 0)), [0 ..< e])"
    unfolding s1 s2 s3 s4 signature_loop_end tr ..
  then have "dbus_validate_signature_with_reason P str 0 e = Some (Returns DBUS_VALID, [0 ..< e])"
    using pre len
    by (simp add: dbus_validate_signature_with_reason_def dbus_string_get_const_data_len_def e_def)
  then show ?thesis by (simp only: str_def e_def)
qed

text \<open>
  C5. In \<open>_dbus_validate_signature_with_reason\<close> the array-depth counter counts
  consecutive array markers only. From any state of the scan, a run of \<open>k\<close> array codes
  adds \<open>k\<close> to the counter as long as the maximum is not exceeded, and the scan returns
  \<open>DBUS_INVALID_EXCEEDED_MAXIMUM_ARRAY_RECURSION\<close> when it is; so the function returns
  \<open>DBUS_INVALID_EXCEEDED_MAXIMUM_ARRAY_RECURSION\<close> on every range that starts with more
  array codes than the maximum. After any code that is not the array code and on which the
  \<open>switch\<close> does not return, the scan goes on with the counter at 0; so the function
  returns \<open>DBUS_VALID\<close> on two runs of array codes, each of them within the maximum and
  each of them followed by a byte code, however many array codes the two runs have together.
  A scan that ends with a positive array depth gives
  \<open>DBUS_INVALID_MISSING_ARRAY_ELEMENT_TYPE\<close>, as the signature \<open>a\<close> does.
\<close>

theorem C5_array_depth_counter:
  "(take k (drop p str) = replicate k DBUS_TYPE_ARRAY \<and> p + k \<le> end
      \<and> ad + k \<le> DBUS_MAXIMUM_TYPE_RECURSION_DEPTH P \<longrightarrow>
        signature_loop P str p end lastc sd ad tr =
          signature_loop P str (p + k) end (if k = 0 then lastc else DBUS_TYPE_ARRAY) sd (ad + k)
            (tr @ [p ..< p + k]))
   \<and> (take k (drop p str) = replicate k DBUS_TYPE_ARRAY \<and> p + k \<le> end
      \<and> ad \<le> DBUS_MAXIMUM_TYPE_RECURSION_DEPTH P
      \<and> DBUS_MAXIMUM_TYPE_RECURSION_DEPTH P < ad + k \<longrightarrow>
        (\<exists>tr'. signature_loop P str p end lastc sd ad tr =
           Some (Returns (Inl DBUS_INVALID_EXCEEDED_MAXIMUM_ARRAY_RECURSION), tr')))
   \<and> (take k (drop p str) = replicate k DBUS_TYPE_ARRAY \<and> k \<le> len
      \<and> DBUS_MAXIMUM_TYPE_RECURSION_DEPTH P < k \<and> p + len \<le> length str
      \<and> p + len < DBUS_INT_MAX P \<and> len \<le> DBUS_MAXIMUM_SIGNATURE_LENGTH P \<longrightarrow>
        (\<exists>tr'. dbus_validate_signature_with_reason P str p len =
           Some (Returns DBUS_INVALID_EXCEEDED_MAXIMUM_ARRAY_RECURSION, tr')))
   \<and> (peek str p = Some c \<and> c \<noteq> DBUS_TYPE_ARRAY \<and> p \<noteq> end
      \<and> signature_switch P c lastc sd ad = Inr (sd', ad') \<longrightarrow>
        signature_loop P str p end lastc sd ad tr =
          signature_loop P str (p + 1) end c sd' 0 (tr @ [p]))
   \<and> (m \<le> DBUS_MAXIMUM_TYPE_RECURSION_DEPTH P \<and> n \<le> DBUS_MAXIMUM_TYPE_RECURSION_DEPTH P
      \<and> m + n + 2 < DBUS_INT_MAX P \<and> m + n + 2 \<le> DBUS_MAXIMUM_SIGNATURE_LENGTH P \<longrightarrow>
        dbus_validate_signature_with_reason P
          (replicate m DBUS_TYPE_ARRAY @ [DBUS_TYPE_BYTE]
             @ replicate n DBUS_TYPE_ARRAY @ [DBUS_TYPE_BYTE])
          0 (m + n + 2) = Some (Returns DBUS_VALID, [0 ..< m + n + 2]))
   \<and> (signature_loop P str p (p + len) DBUS_TYPE_INVALID 0 0 [] = Some (Returns (Inr (sd, ad)), tr)
      \<and> 0 < ad \<and> p + len < DBUS_INT_MAX P \<and> len \<le> DBUS_MAXIMUM_SIGNATURE_LENGTH P \<longrightarrow>
        dbus_validate_signature_with_reason P str p len =
          Some (Returns DBUS_INVALID_MISSING_ARRAY_ELEMENT_TYPE, tr))
   \<and> dbus_validate_signature_with_reason dbus_lp64 (bytes ''a'') 0 1 =
       Some (Returns DBUS_INVALID_MISSING_ARRAY_ELEMENT_TYPE, [0])"
  (is "(?H1 \<longrightarrow> ?R1) \<and> (?H2 \<longrightarrow> ?R2) \<and> (?H3 \<longrightarrow> ?R3) \<and> (?H4 \<longrightarrow> ?R4) \<and> (?H5 \<longrightarrow> ?R5)
       \<and> (?H6 \<longrightarrow> ?R6) \<and> ?R7")
proof (intro conjI impI)
  assume ?H1 then show ?R1 by (intro array_depth_run) simp_all
next
  assume ?H2 then show ?R2 using array_depth_exceeds [of k p str "end" ad P lastc sd tr] by blast
next
  assume ?H3 then show ?R3 using array_depth_exceeded_maximum [of k p str len P] by blast
next
  assume ?H4 then show ?R4 by (intro signature_loop_not_array [where ad' = ad']) simp_all
next
  assume ?H5 then show ?R5 by (intro array_depth_reset) simp_all
next
  assume ?H6 then show ?R6 by (intro missing_array_element_type [where sd = sd and ad = ad]) simp_all
next
  show ?R7 by (rule sig_a)
qed

lemma replicate_2: "replicate 2 x = [x, x]"
  by (simp add: numeral_2_eq_2)

lemmas signature_eval =
  bytes_def dbus_lp64_def typecode_defs peek_def signature_switch_def signature_loop.simps
  replicate_2 dbus_validate_signature_with_reason_def dbus_string_get_const_data_len_def

theorem C5_array_depth_counter_witness:
  "(take 2 (drop 0 (bytes ''aay'')) = replicate 2 DBUS_TYPE_ARRAY \<and> (0 :: nat) + 2 \<le> 3
      \<and> (0 :: nat) + 2 \<le> DBUS_MAXIMUM_TYPE_RECURSION_DEPTH dbus_lp64)
   \<and> signature_loop dbus_lp64 (bytes ''aay'') 0 3 DBUS_TYPE_INVALID 0 0 [] =
       signature_loop dbus_lp64 (bytes ''aay'') (0 + 2) 3
         (if (2 :: nat) = 0 then DBUS_TYPE_INVALID else DBUS_TYPE_ARRAY) 0 (0 + 2)
         ([] @ [0 ..< 0 + 2])
   \<and> (take 33 (drop 0 (replicate 33 DBUS_TYPE_ARRAY)) = replicate 33 DBUS_TYPE_ARRAY
      \<and> (0 :: nat) + 33 \<le> 33
      \<and> (0 :: nat) \<le> DBUS_MAXIMUM_TYPE_RECURSION_DEPTH dbus_lp64
      \<and> DBUS_MAXIMUM_TYPE_RECURSION_DEPTH dbus_lp64 < 0 + 33)
   \<and> (\<exists>tr'. signature_loop dbus_lp64 (replicate 33 DBUS_TYPE_ARRAY) 0 33 DBUS_TYPE_INVALID 0 0 [] =
         Some (Returns (Inl DBUS_INVALID_EXCEEDED_MAXIMUM_ARRAY_RECURSION), tr'))
   \<and> (take 33 (drop 0 (replicate 33 DBUS_TYPE_ARRAY)) = replicate 33 DBUS_TYPE_ARRAY
      \<and> (33 :: nat) \<le> 33
      \<and> DBUS_MAXIMUM_TYPE_RECURSION_DEPTH dbus_lp64 < 33
      \<and> 0 + 33 \<le> length (replicate 33 DBUS_TYPE_ARRAY)
      \<and> 0 + 33 < DBUS_INT_MAX dbus_lp64 \<and> 33 \<le> DBUS_MAXIMUM_SIGNATURE_LENGTH dbus_lp64)
   \<and> (\<exists>tr'. dbus_validate_signature_with_reason dbus_lp64 (replicate 33 DBUS_TYPE_ARRAY) 0 33 =
         Some (Returns DBUS_INVALID_EXCEEDED_MAXIMUM_ARRAY_RECURSION, tr'))
   \<and> (peek (bytes ''aay'') 2 = Some DBUS_TYPE_BYTE \<and> DBUS_TYPE_BYTE \<noteq> DBUS_TYPE_ARRAY
      \<and> (2 :: nat) \<noteq> 3
      \<and> signature_switch dbus_lp64 DBUS_TYPE_BYTE DBUS_TYPE_ARRAY 0 2 = Inr (0, 2))
   \<and> signature_loop dbus_lp64 (bytes ''aay'') 2 3 DBUS_TYPE_ARRAY 0 2 [0, 1] =
       signature_loop dbus_lp64 (bytes ''aay'') (2 + 1) 3 DBUS_TYPE_BYTE 0 0 ([0, 1] @ [2])
   \<and> ((32 :: nat) \<le> DBUS_MAXIMUM_TYPE_RECURSION_DEPTH dbus_lp64
      \<and> (32 :: nat) \<le> DBUS_MAXIMUM_TYPE_RECURSION_DEPTH dbus_lp64
      \<and> 32 + 32 + 2 < DBUS_INT_MAX dbus_lp64
      \<and> 32 + 32 + 2 \<le> DBUS_MAXIMUM_SIGNATURE_LENGTH dbus_lp64)
   \<and> dbus_validate_signature_with_reason dbus_lp64
       (replicate 32 DBUS_TYPE_ARRAY @ [DBUS_TYPE_BYTE]
          @ replicate 32 DBUS_TYPE_ARRAY @ [DBUS_TYPE_BYTE])
       0 (32 + 32 + 2) = Some (Returns DBUS_VALID, [0 ..< 32 + 32 + 2])
   \<and> (signature_loop dbus_lp64 (bytes ''a'') 0 (0 + 1) DBUS_TYPE_INVALID 0 0 []
        = Some (Returns (Inr (0, 1)), [0])
      \<and> (0 :: nat) < 1 \<and> 0 + 1 < DBUS_INT_MAX dbus_lp64
      \<and> 1 \<le> DBUS_MAXIMUM_SIGNATURE_LENGTH dbus_lp64)
   \<and> dbus_validate_signature_with_reason dbus_lp64 (bytes ''a'') 0 1 =
       Some (Returns DBUS_INVALID_MISSING_ARRAY_ELEMENT_TYPE, [0])"
  (is "?H1 \<and> ?R1 \<and> ?H2 \<and> ?R2 \<and> ?H3 \<and> ?R3 \<and> ?H4 \<and> ?R4 \<and> ?H5 \<and> ?R5 \<and> ?H6 \<and> ?R6")
proof -
  have h1: ?H1 and h4: ?H4 and h6: ?H6
    by (simp_all add: signature_eval)
  have h2: ?H2 and h3: ?H3 and h5: ?H5
    by (simp_all add: dbus_lp64_def)
  from h1 C5_array_depth_counter [where k = 2 and p = 0 and str = "bytes ''aay''" and ?end = 3
      and ad = 0 and P = dbus_lp64 and lastc = DBUS_TYPE_INVALID and sd = 0 and tr = "[]"]
  have r1: ?R1 by blast
  from h2 C5_array_depth_counter [where k = 33 and p = 0 and str = "replicate 33 DBUS_TYPE_ARRAY"
      and ?end = 33 and ad = 0 and P = dbus_lp64 and lastc = DBUS_TYPE_INVALID and sd = 0
      and tr = "[]"]
  have r2: ?R2 by blast
  from h3 C5_array_depth_counter [where k = 33 and p = 0 and str = "replicate 33 DBUS_TYPE_ARRAY"
      and len = 33 and P = dbus_lp64]
  have r3: ?R3 by blast
  from h4 C5_array_depth_counter [where p = 2 and str = "bytes ''aay''" and ?end = 3 and ad = 2
      and P = dbus_lp64 and lastc = DBUS_TYPE_ARRAY and sd = 0 and tr = "[0, 1]"
      and c = DBUS_TYPE_BYTE and sd' = 0 and ad' = 2]
  have r4: ?R4 by blast
  from h5 C5_array_depth_counter [where m = 32 and n = 32 and P = dbus_lp64]
  have r5: ?R5 by blast
  from h6 C5_array_depth_counter [where p = 0 and str = "bytes ''a''" and len = 1 and ad = 1
      and P = dbus_lp64 and sd = 0 and tr = "[0]"]
  have r6: ?R6 by blast
  from h1 r1 h2 r2 h3 r3 h4 r4 h5 r5 h6 r6 show ?thesis by blast
qed




text \<open>
  C8. \<open>_dbus_validate_signature_with_reason\<close> returns on every string, position and
  length, and the bytes it reads are within \<open>[type_pos, type_pos + len)\<close>; when that
  range lies in the string and below \<open>_DBUS_INT_MAX\<close>, it returns a validity code.
\<close>

theorem C8_signature_scan_terminates:
  "\<exists>r tr. dbus_validate_signature_with_reason P type_str type_pos len = Some (r, tr)
     \<and> set tr \<subseteq> {type_pos ..< type_pos + len}
     \<and> (type_pos + len \<le> length type_str \<and> type_pos + len < DBUS_INT_MAX P
          \<longrightarrow> (\<exists>v. r = Returns v))"
proof -
  from signature_loop_returns [of type_pos "type_pos + len" P type_str DBUS_TYPE_INVALID 0 0 "[]"]
  obtain r tr where
    r: "signature_loop P type_str type_pos (type_pos + len) DBUS_TYPE_INVALID 0 0 [] = Some (r, tr)"
    and t: "set tr \<subseteq> {type_pos ..< type_pos + len}"
    and x: "type_pos + len \<le> length type_str \<longrightarrow> (\<exists>x. r = Returns x)"
    by auto
  show ?thesis
    using r t x
    by (auto simp: dbus_validate_signature_with_reason_def dbus_string_get_const_data_len_def
        split: outcome.splits sum.splits prod.splits)
qed

theorem C8_signature_scan_terminates_witness:
  "((0 :: nat) + 4 \<le> length (bytes ''a(y)'') \<and> 0 + 4 < DBUS_INT_MAX dbus_lp64)
   \<and> (\<exists>r tr. dbus_validate_signature_with_reason dbus_lp64 (bytes ''a(y)'') 0 4 = Some (r, tr)
     \<and> set tr \<subseteq> {0 ..< 0 + 4} \<and> (\<exists>v. r = Returns v))"
proof -
  have h: "(0 :: nat) + 4 \<le> length (bytes ''a(y)'') \<and> 0 + 4 < DBUS_INT_MAX dbus_lp64"
    by (simp add: bytes_def dbus_lp64_def)
  from h C8_signature_scan_terminates [of dbus_lp64 "bytes ''a(y)''" 0 4] show ?thesis by blast
qed

section \<open>The body validator: the cursor, trailing bytes and \<open>bytes_remaining\<close>\<close>

lemma nrv_simps [simp]:
  "never_returns_valid None"
  "never_returns_valid (Some (Returns (Next p), tr))"
  "never_returns_valid (Some (AssertionFailed, tr))"
  "never_returns_valid (Some (ReadFault, tr))"
  "never_returns_valid (Some (Returns (Return v), tr)) \<longleftrightarrow> v \<noteq> DBUS_VALID"
  by (auto simp: never_returns_valid_def)












subsection \<open>Evaluation at concrete bodies\<close>

lemma typecodes_not_invalid:
  "DBUS_TYPE_BOOLEAN \<noteq> DBUS_TYPE_INVALID" "DBUS_TYPE_BYTE \<noteq> DBUS_TYPE_INVALID"
  "DBUS_TYPE_ARRAY \<noteq> DBUS_TYPE_INVALID"
  by (simp_all add: typecode_defs)

lemmas reader_defs =
  dbus_type_reader_init_types_only_def dbus_type_reader_get_current_type_def
  dbus_first_type_in_signature_def dbus_type_reader_next_def skip_one_complete_type_def
  dbus_type_reader_get_element_type_def dbus_type_reader_recurse_def

lemmas switch_defs =
  validate_body_helper_switch_def dbus_type_get_alignment_def DBUS_ALIGN_ADDRESS_def
  then_step_def padding_loop.simps dbus_unpack_uint32_def unsigned_long_diff_def

lemma current_type_b:
  "dbus_type_reader_get_current_type (dbus_type_reader_init_types_only (bytes ''b'') 0)
     = DBUS_TYPE_BOOLEAN"
  by (simp add: reader_defs bytes_def typecode_defs)



lemma current_type_ax:
  "dbus_type_reader_get_current_type (dbus_type_reader_init_types_only (bytes ''ax'') 0)
     = DBUS_TYPE_ARRAY"
  by (simp add: reader_defs bytes_def typecode_defs)

lemma element_type_ax:
  "dbus_type_reader_get_element_type (dbus_type_reader_init_types_only (bytes ''ax'') 0)
     = DBUS_TYPE_INT64"
  by (simp add: reader_defs bytes_def typecode_defs)

lemma next_type_ax:
  "dbus_type_reader_get_current_type
     (snd (dbus_type_reader_next (dbus_type_reader_init_types_only (bytes ''ax'') 0)))
     = DBUS_TYPE_INVALID"
  by (simp add: reader_defs bytes_def typecode_defs)

text \<open>
  A boolean with one byte left before \<open>end\<close>: \<open>a >= end\<close> is false, so the four bytes
  at \<open>p\<close> are read.
\<close>

lemma switch_boolean_one_byte:
  "validate_body_helper_switch h al dbus_lp64 r DBUS_TYPE_BOOLEAN DBUS_LITTLE_ENDIAN
       [1, 0, 0, 0] 0 (Suc 0) []
     = Some (Returns (Next 4), [0, 1, 2, 3])"
  by (simp add: switch_defs typecode_defs)

lemma switch_boolean_one_byte_fault:
  "validate_body_helper_switch h al dbus_lp64 r DBUS_TYPE_BOOLEAN DBUS_LITTLE_ENDIAN
       [1] 0 (Suc 0) []
     = Some (ReadFault, [0, 1, 2, 3])"
  by (simp add: switch_defs typecode_defs)

lemma switch_boolean_two:
  "validate_body_helper_switch h al dbus_lp64 r DBUS_TYPE_BOOLEAN DBUS_LITTLE_ENDIAN
       [2, 0, 0, 0] 0 4 []
     = Some (Returns (Return DBUS_INVALID_BOOLEAN_NOT_ZERO_OR_ONE), [0, 1, 2, 3])"
  by (simp add: switch_defs typecode_defs)


lemma helper_boolean_one_byte:
  "validate_body_helper (Suc n) dbus_lp64 (dbus_type_reader_init_types_only (bytes ''b'') 0)
       DBUS_LITTLE_ENDIAN True [1, 0, 0, 0] 0 (Suc 0) []
     = Some (Returns (DBUS_INVALID_NOT_ENOUGH_DATA, None), [0, 1, 2, 3])"
  by (simp add: current_type_b typecodes_not_invalid switch_boolean_one_byte)

lemma helper_boolean_one_byte_fault:
  "validate_body_helper (Suc n) dbus_lp64 (dbus_type_reader_init_types_only (bytes ''b'') 0)
       DBUS_LITTLE_ENDIAN True [1] 0 (Suc 0) []
     = Some (ReadFault, [0, 1, 2, 3])"
  by (simp add: current_type_b typecodes_not_invalid switch_boolean_one_byte_fault)

lemma helper_boolean_two:
  "validate_body_helper (Suc n) dbus_lp64 (dbus_type_reader_init_types_only (bytes ''b'') 0)
       DBUS_LITTLE_ENDIAN True [2, 0, 0, 0] 0 4 []
     = Some (Returns (DBUS_INVALID_BOOLEAN_NOT_ZERO_OR_ONE, None), [0, 1, 2, 3])"
  by (simp add: current_type_b typecodes_not_invalid switch_boolean_two)


text \<open>
  An array of int64 whose length prefix ends at offset 4: the cursor goes to offset 8
  over four bytes that are not read.
\<close>

lemma switch_array_unread_padding:
  "validate_body_helper_switch h al dbus_lp64 (dbus_type_reader_init_types_only (bytes ''ax'') 0)
       DBUS_TYPE_ARRAY DBUS_LITTLE_ENDIAN [0, 0, 0, 0, 1, 1, 1, 1] 0 8 []
     = Some (Returns (Next 8), [0, 1, 2, 3])"
  by (simp add: switch_defs element_type_ax typecode_defs)

lemma helper_array_unread_padding:
  "validate_body_helper (Suc (Suc n)) dbus_lp64 (dbus_type_reader_init_types_only (bytes ''ax'') 0)
       DBUS_LITTLE_ENDIAN True [0, 0, 0, 0, 1, 1, 1, 1] 0 8 []
     = Some (Returns (DBUS_VALID, Some 8), [0, 1, 2, 3])"
  by (simp add: current_type_ax next_type_ax typecodes_not_invalid switch_array_unread_padding)

text \<open>
  C1. In body validation every multi-byte read is preceded by a capacity check against
  \<open>end\<close>, and for every fixed-width value the full width lies within \<open>[p, end)\<close> before
  its bytes are read. The code does not do this for a boolean: with the signature \<open>b\<close>
  and a body of one byte, the check \<open>a >= end\<close> passes and \<open>_dbus_unpack_uint32\<close> reads
  the offsets 0 to 3, three of them outside the body \<open>[0, 1)\<close>; the overrun is seen only
  afterwards, by \<open>p > end\<close>. When the string holds no more than the body, the read leaves
  its storage.
\<close>

theorem C1_boolean_read_past_end:
  "dbus_validate_body_with_reason (Suc 0) dbus_lp64 (bytes ''b'') 0 DBUS_LITTLE_ENDIAN None
       [1, 0, 0, 0] 0 1
     = Some (Returns (DBUS_INVALID_NOT_ENOUGH_DATA, None), [0, 1, 2, 3])
   \<and> \<not> set [0, 1, 2, 3 :: nat] \<subseteq> {0 ..< 0 + 1}
   \<and> dbus_validate_body_with_reason (Suc 0) dbus_lp64 (bytes ''b'') 0 DBUS_LITTLE_ENDIAN None
       [1] 0 1
     = Some (ReadFault, [0, 1, 2, 3])"
  by (simp add: dbus_validate_body_with_reason_def helper_boolean_one_byte
      helper_boolean_one_byte_fault del: validate_body_helper.simps)

text \<open>
  C3. In body validation every byte skipped while aligning the cursor must be zero, and a
  body with a non-zero skipped byte fails with the alignment-padding-not-nul code. The
  code does not check the bytes it skips when it aligns to the element type of an array
  after the length prefix: with the signature \<open>ax\<close> and the body
  \<open>00 00 00 00 01 01 01 01\<close> the bytes at the offsets 4 to 7 are skipped without being
  read, and the body is valid.
\<close>

theorem C3_array_padding_not_checked:
  "dbus_validate_body_with_reason (Suc (Suc 0)) dbus_lp64 (bytes ''ax'') 0 DBUS_LITTLE_ENDIAN None
       [0, 0, 0, 0, 1, 1, 1, 1] 0 8
     = Some (Returns (DBUS_VALID, None), [0, 1, 2, 3])
   \<and> [0, 0, 0, 0, 1, 1, 1, 1 :: byte] ! 4 \<noteq> 0"
  by (simp add: dbus_validate_body_with_reason_def helper_array_unread_padding
      del: validate_body_helper.simps)



text \<open>
  C9. \<open>_dbus_validate_body_with_reason\<close> writes through \<open>bytes_remaining\<close> only when
  it returns \<open>DBUS_VALID\<close>: whenever it returns a failure code, the location holds what
  it held before the call.
\<close>

theorem C9_bytes_remaining_unchanged_on_failure:
  "dbus_validate_body_with_reason fuel P expected_signature expected_signature_start order
       bytes_remaining value_str value_pos len = Some (Returns (validity, bytes_remaining'), tr)
     \<Longrightarrow> validity \<noteq> DBUS_VALID \<Longrightarrow> bytes_remaining' = bytes_remaining"
  by (auto simp: dbus_validate_body_with_reason_def Let_def
      split: if_splits option.splits prod.splits outcome.splits)

theorem C9_bytes_remaining_unchanged_on_failure_witness:
  "dbus_validate_body_with_reason (Suc 0) dbus_lp64 (bytes ''b'') 0 DBUS_LITTLE_ENDIAN (Some 77)
       [2, 0, 0, 0] 0 4
     = Some (Returns (DBUS_INVALID_BOOLEAN_NOT_ZERO_OR_ONE, Some 77), [0, 1, 2, 3])
   \<and> DBUS_INVALID_BOOLEAN_NOT_ZERO_OR_ONE \<noteq> DBUS_VALID
   \<and> Some (77 :: int) = Some 77"
proof -
  have e: "dbus_validate_body_with_reason (Suc 0) dbus_lp64 (bytes ''b'') 0 DBUS_LITTLE_ENDIAN
             (Some 77) [2, 0, 0, 0] 0 4
           = Some (Returns (DBUS_INVALID_BOOLEAN_NOT_ZERO_OR_ONE, Some 77), [0, 1, 2, 3])"
    by (simp add: dbus_validate_body_with_reason_def helper_boolean_two
        del: validate_body_helper.simps)
  have n: "DBUS_INVALID_BOOLEAN_NOT_ZERO_OR_ONE \<noteq> DBUS_VALID"
    by simp
  from C9_bytes_remaining_unchanged_on_failure [OF e n] e n show ?thesis
    by simp
qed

section \<open>The name validators: object paths and bus names\<close>

lemma path_loop_spec:
  assumes "s \<le> end" "end \<le> length str" "last_slash < s" "str ! last_slash = slash"
    "\<forall>j. last_slash < j \<and> j < s \<longrightarrow> str ! j \<noteq> slash"
  shows "\<exists>tr'. path_loop str len s end last_slash tr =
     Some (Returns ((\<forall>i. s \<le> i \<and> i < end \<longrightarrow>
                       (if str ! i = slash then str ! (i - 1) \<noteq> slash
                        else VALID_NAME_CHARACTER (str ! i)))
                    \<and> \<not> (str ! (end - 1) = slash \<and> len > 1)), tr')
     \<and> set tr' \<subseteq> set tr \<union> {s ..< end}"
  using assms
proof (induction "end - s" arbitrary: s last_slash tr)
  case 0
  then have e: "s = end" by simp
  have "int end - int last_slash < 2 \<longleftrightarrow> str ! (end - 1) = slash"
  proof
    assume "int end - int last_slash < 2"
    with "0.prems"(3) e have "last_slash = end - 1" by simp
    with "0.prems"(4) show "str ! (end - 1) = slash" by simp
  next
    assume a: "str ! (end - 1) = slash"
    have "\<not> last_slash < end - 1"
    proof
      assume "last_slash < end - 1"
      with "0.prems"(5) e "0.prems"(3) have "str ! (end - 1) \<noteq> slash" by simp
      with a show False by simp
    qed
    with "0.prems"(3) e show "int end - int last_slash < 2" by simp
  qed
  with e show ?case
    by (subst path_loop.simps) auto
next
  case (Suc n)
  then have lt: "s < end" and n: "n = end - (s + 1)" and le: "s + 1 \<le> end" by simp_all
  from lt Suc.prems(2) have pk: "peek str s = Some (str ! s)" by (simp add: peek_def)
  have near: "int s - int last_slash < 2 \<longleftrightarrow> str ! (s - 1) = slash"
  proof
    assume "int s - int last_slash < 2"
    with Suc.prems(3) have "last_slash = s - 1" by simp
    with Suc.prems(4) show "str ! (s - 1) = slash" by simp
  next
    assume a: "str ! (s - 1) = slash"
    have "\<not> last_slash < s - 1"
    proof
      assume "last_slash < s - 1"
      with Suc.prems(5) Suc.prems(3) have "str ! (s - 1) \<noteq> slash" by simp
      with a show False by simp
    qed
    with Suc.prems(3) show "int s - int last_slash < 2" by simp
  qed
  have split: "\<And>Q. (\<forall>i. s \<le> i \<and> i < end \<longrightarrow> Q i) \<longleftrightarrow> Q s \<and> (\<forall>i. s + 1 \<le> i \<and> i < end \<longrightarrow> Q i)"
  proof -
    fix Q :: "nat \<Rightarrow> bool"
    have "\<And>i. s \<le> i \<longleftrightarrow> i = s \<or> s + 1 \<le> i" by auto
    then show "(\<forall>i. s \<le> i \<and> i < end \<longrightarrow> Q i) \<longleftrightarrow> Q s \<and> (\<forall>i. s + 1 \<le> i \<and> i < end \<longrightarrow> Q i)"
      using lt by auto
  qed
  show ?case
  proof (cases "str ! s = slash")
    case True
    show ?thesis
    proof (cases "str ! (s - 1) = slash")
      case prev: True
      have "path_loop str len s end last_slash tr = Some (Returns False, tr @ [s])"
        using lt pk True near prev by (subst path_loop.simps) simp
      moreover have "\<not> (\<forall>i. s \<le> i \<and> i < end \<longrightarrow>
                       (if str ! i = slash then str ! (i - 1) \<noteq> slash
                        else VALID_NAME_CHARACTER (str ! i)))"
        using True prev lt by auto
      ultimately show ?thesis using lt by auto
    next
      case prev: False
      have i5: "\<forall>j. s < j \<and> j < s + 1 \<longrightarrow> str ! j \<noteq> slash" by auto
      from Suc.hyps(1) [OF n le Suc.prems(2) _ True i5, of "tr @ [s]"]
      obtain tr' where
        r: "path_loop str len (s + 1) end s (tr @ [s]) =
          Some (Returns ((\<forall>i. s + 1 \<le> i \<and> i < end \<longrightarrow>
                       (if str ! i = slash then str ! (i - 1) \<noteq> slash
                        else VALID_NAME_CHARACTER (str ! i)))
                    \<and> \<not> (str ! (end - 1) = slash \<and> len > 1)), tr')"
        and t: "set tr' \<subseteq> set (tr @ [s]) \<union> {s + 1 ..< end}"
        by auto
      have "path_loop str len s end last_slash tr = path_loop str len (s + 1) end s (tr @ [s])"
        using lt pk True near prev by (subst path_loop.simps) simp
      with r t lt True prev show ?thesis
        by (subst split) auto
    qed
  next
    case False
    show ?thesis
    proof (cases "VALID_NAME_CHARACTER (str ! s)")
      case v: False
      have "path_loop str len s end last_slash tr = Some (Returns False, tr @ [s])"
        using lt pk False v by (subst path_loop.simps) simp
      moreover have "\<not> (\<forall>i. s \<le> i \<and> i < end \<longrightarrow>
                       (if str ! i = slash then str ! (i - 1) \<noteq> slash
                        else VALID_NAME_CHARACTER (str ! i)))"
        using False v lt by auto
      ultimately show ?thesis using lt by auto
    next
      case v: True
      have i3: "last_slash < s + 1" using Suc.prems(3) by simp
      have i5: "\<forall>j. last_slash < j \<and> j < s + 1 \<longrightarrow> str ! j \<noteq> slash"
        using Suc.prems(5) False by (metis Suc_eq_plus1 less_Suc_eq)
      from Suc.hyps(1) [OF n le Suc.prems(2) i3 Suc.prems(4) i5, of "tr @ [s]"]
      obtain tr' where
        r: "path_loop str len (s + 1) end last_slash (tr @ [s]) =
          Some (Returns ((\<forall>i. s + 1 \<le> i \<and> i < end \<longrightarrow>
                       (if str ! i = slash then str ! (i - 1) \<noteq> slash
                        else VALID_NAME_CHARACTER (str ! i)))
                    \<and> \<not> (str ! (end - 1) = slash \<and> len > 1)), tr')"
        and t: "set tr' \<subseteq> set (tr @ [s]) \<union> {s + 1 ..< end}"
        by auto
      have "path_loop str len s end last_slash tr
          = path_loop str len (s + 1) end last_slash (tr @ [s])"
        using lt pk False v by (subst path_loop.simps) simp
      with r t lt False v show ?thesis
        by (subst split) auto
    qed
  qed
qed

text \<open>
  The macro \<open>VALID_NAME_CHARACTER\<close> accepts the ASCII letters, the digits and the
  underscore, and nothing else.
\<close>

lemma name_character_class:
  "VALID_NAME_CHARACTER c \<longleftrightarrow> ascii_alphanumeric_or_underscore c"
proof -
  have b: "unat c < 256"
    using unsigned_less [of c, where ?'a = nat] by simp
  show ?thesis
    unfolding VALID_NAME_CHARACTER_def ascii_alphanumeric_or_underscore_def bytes_def
    using b
    by (simp add: word_le_nat_alt word_eq_iff_unsigned [where ?'a = nat]) arith
qed

lemma view_nth:
  "start + len \<le> length str \<Longrightarrow> k < len \<Longrightarrow> take len (drop start str) ! k = str ! (start + k)"
  by simp

lemma path_conditions:
  assumes r: "start + len \<le> length str" and l: "0 < len" and h: "str ! start = slash"
  shows "((\<forall>i. start + 1 \<le> i \<and> i < start + len \<longrightarrow>
             (if str ! i = slash then str ! (i - 1) \<noteq> slash else VALID_NAME_CHARACTER (str ! i)))
          \<and> \<not> (str ! (start + len - 1) = slash \<and> len > 1))
         \<longleftrightarrow> valid_object_path (take len (drop start str))"
    (is "?A \<and> ?T \<longleftrightarrow> _")
proof -
  let ?bs = "take len (drop start str)"
  have len: "length ?bs = len" using r by simp
  have nth: "\<And>k. k < len \<Longrightarrow> ?bs ! k = str ! (start + k)" using r by simp
  have ne: "?bs \<noteq> []" using len l by auto
  have hd: "hd ?bs = slash" using ne nth [of 0] l h by (simp add: hd_conv_nth)
  have last: "last ?bs = str ! (start + len - 1)"
    using ne nth [of "len - 1"] l len by (simp add: last_conv_nth)
  have B1: "(\<forall>i \<in> {..< length ?bs - 1}. \<not> (?bs ! i = slash \<and> ?bs ! (i + 1) = slash))
      \<longleftrightarrow> (\<forall>i. start + 1 \<le> i \<and> i < start + len \<longrightarrow> str ! i = slash \<longrightarrow> str ! (i - 1) \<noteq> slash)"
    (is "?L \<longleftrightarrow> ?R")
  proof
    assume L: ?L
    show ?R
    proof (intro allI impI)
      fix i assume i: "start + 1 \<le> i \<and> i < start + len" and s: "str ! i = slash"
      define k where "k = i - start - 1"
      from i have k: "k < len - 1" "i = start + (k + 1)" "i - 1 = start + k" by (auto simp: k_def)
      from L k(1) len have "\<not> (?bs ! k = slash \<and> ?bs ! (k + 1) = slash)" by simp
      moreover have "?bs ! k = str ! (start + k)" using nth [of k] k(1) by simp
      moreover have "?bs ! (k + 1) = str ! (start + (k + 1))" using nth [of "k + 1"] k(1) by simp
      ultimately show "str ! (i - 1) \<noteq> slash" using s k by auto
    qed
  next
    assume R: ?R
    show ?L
    proof (intro ballI)
      fix k assume "k \<in> {..< length ?bs - 1}"
      with len have k: "k < len - 1" by simp
      have a: "?bs ! k = str ! (start + k)" using nth [of k] k by simp
      have b: "?bs ! (k + 1) = str ! (start + (k + 1))" using nth [of "k + 1"] k by simp
      from R [rule_format, of "start + (k + 1)"] k
      have "str ! (start + (k + 1)) = slash \<longrightarrow> str ! (start + k) \<noteq> slash" by simp
      with a b show "\<not> (?bs ! k = slash \<and> ?bs ! (k + 1) = slash)" by auto
    qed
  qed
  have B2: "(\<forall>c \<in> set ?bs. c \<noteq> slash \<longrightarrow> VALID_NAME_CHARACTER c)
      \<longleftrightarrow> (\<forall>i. start + 1 \<le> i \<and> i < start + len \<longrightarrow> str ! i \<noteq> slash \<longrightarrow> VALID_NAME_CHARACTER (str ! i))"
    (is "?L \<longleftrightarrow> ?R")
  proof
    assume L: ?L
    show ?R
    proof (intro allI impI)
      fix i assume i: "start + 1 \<le> i \<and> i < start + len" and s: "str ! i \<noteq> slash"
      define k where "k = i - start"
      from i have k: "k < len" "i = start + k" by (auto simp: k_def)
      then have "?bs ! k = str ! i" using nth [of k] by simp
      moreover have "?bs ! k \<in> set ?bs" using k(1) len by (intro nth_mem) simp
      ultimately show "VALID_NAME_CHARACTER (str ! i)" using L s by auto
    qed
  next
    assume R: ?R
    show ?L
    proof (intro ballI impI)
      fix c assume "c \<in> set ?bs" and s: "c \<noteq> slash"
      then obtain k where k: "k < len" "?bs ! k = c"
        using len by (metis in_set_conv_nth)
      then have c: "c = str ! (start + k)" using nth [of k] by simp
      with s h have "k \<noteq> 0" by (cases k) auto
      with k(1) R [rule_format, of "start + k"] c s show "VALID_NAME_CHARACTER c" by simp
    qed
  qed
  have T: "?T \<longleftrightarrow> (last ?bs = slash \<longrightarrow> length ?bs = 1)"
    using last len l by auto
  have A: "?A \<longleftrightarrow> (\<forall>i. start + 1 \<le> i \<and> i < start + len \<longrightarrow> str ! i = slash \<longrightarrow> str ! (i - 1) \<noteq> slash)
      \<and> (\<forall>i. start + 1 \<le> i \<and> i < start + len \<longrightarrow> str ! i \<noteq> slash \<longrightarrow> VALID_NAME_CHARACTER (str ! i))"
    by auto
  show ?thesis
    unfolding valid_object_path_def name_character_class [symmetric]
    using ne hd by (simp only: A B1 B2 T) blast
qed

lemma validate_path_spec:
  assumes r: "start + len \<le> length str"
  shows "\<exists>tr. dbus_validate_path str start len
           = Some (Returns (valid_object_path (take len (drop start str))), tr)
         \<and> set tr \<subseteq> {start ..< start + len}"
proof (cases "len = 0")
  case True
  then show ?thesis
    using r by (simp add: dbus_validate_path_def valid_object_path_def)
next
  case False
  then have l: "0 < len" by simp
  with r have pk: "peek str start = Some (str ! start)" by (simp add: peek_def)
  have a: "\<not> int len > int (length str) - int start" "start \<le> length str" using r by simp_all
  let ?bs = "take len (drop start str)"
  have hd: "hd ?bs = str ! start" using r l by (simp add: hd_conv_nth)
  show ?thesis
  proof (cases "str ! start = slash")
    case ns: False
    then have "\<not> valid_object_path ?bs" using hd by (simp add: valid_object_path_def)
    then show ?thesis
      using a l pk ns r by (simp add: dbus_validate_path_def)
  next
    case s: True
    have inv: "\<forall>j. start < j \<and> j < start + 1 \<longrightarrow> str ! j \<noteq> slash" by auto
    have le: "start + 1 \<le> start + len" using l by simp
    from path_loop_spec [OF le r _ s inv, of len "[start]"]
    obtain tr' where
      p: "path_loop str len (start + 1) (start + len) start [start] =
        Some (Returns ((\<forall>i. start + 1 \<le> i \<and> i < start + len \<longrightarrow>
             (if str ! i = slash then str ! (i - 1) \<noteq> slash else VALID_NAME_CHARACTER (str ! i)))
          \<and> \<not> (str ! (start + len - 1) = slash \<and> len > 1)), tr')"
      and t: "set tr' \<subseteq> set [start] \<union> {start + 1 ..< start + len}"
      by auto
    from p have "path_loop str len (start + 1) (start + len) start [start] =
        Some (Returns (valid_object_path ?bs), tr')"
      by (simp only: path_conditions [OF r l s])
    moreover from t l have "set tr' \<subseteq> {start ..< start + len}" by auto
    ultimately show ?thesis
      using a l pk s by (simp add: dbus_validate_path_def)
  qed
qed

lemmas path_eval =
  bytes_def peek_def dbus_validate_path_def path_loop.simps slash_def VALID_NAME_CHARACTER_def

text \<open>
  C7. On a range that lies in the string, \<open>_dbus_validate_path\<close> returns TRUE exactly
  when the range is not empty, its first byte is a slash, it has no two slashes in a row,
  it does not end with a slash unless it is the single slash, and every byte that is not
  a slash is an ASCII letter, digit or underscore. The path \<open>/\<close> is valid, the paths
  \<open>//\<close> and \<open>/a/\<close> are not. The path \<open>/azAZ_09\<close> is valid; the paths \<open>/a.b\<close>,
  \<open>/a-b\<close>, \<open>/@\<close>, \<open>/[\<close>, \<open>/`\<close>, \<open>/{\<close>, \<open>/:\<close> and the slash followed by the byte
  \<open>0xE9\<close> are not, each for a byte that is neither a slash nor in the class.
\<close>

theorem C7_object_path_grammar:
  "(start + len \<le> length str \<longrightarrow>
      (\<exists>tr. dbus_validate_path str start len
         = Some (Returns (valid_object_path (take len (drop start str))), tr)))
   \<and> dbus_validate_path (bytes ''/'') 0 1 = Some (Returns True, [0])
   \<and> dbus_validate_path (bytes ''//'') 0 2 = Some (Returns False, [0, 1])
   \<and> dbus_validate_path (bytes ''/a/'') 0 3 = Some (Returns False, [0, 1, 2])
   \<and> dbus_validate_path (bytes ''/azAZ_09'') 0 8 = Some (Returns True, [0, 1, 2, 3, 4, 5, 6, 7])
   \<and> dbus_validate_path (bytes ''/a.b'') 0 4 = Some (Returns False, [0, 1, 2])
   \<and> dbus_validate_path (bytes ''/a-b'') 0 4 = Some (Returns False, [0, 1, 2])
   \<and> dbus_validate_path (bytes ''/@'') 0 2 = Some (Returns False, [0, 1])
   \<and> dbus_validate_path (bytes ''/['') 0 2 = Some (Returns False, [0, 1])
   \<and> dbus_validate_path (bytes ''/`'') 0 2 = Some (Returns False, [0, 1])
   \<and> dbus_validate_path (bytes ''/{'') 0 2 = Some (Returns False, [0, 1])
   \<and> dbus_validate_path (bytes ''/:'') 0 2 = Some (Returns False, [0, 1])
   \<and> dbus_validate_path [slash, 0xE9] 0 2 = Some (Returns False, [0, 1])"
proof (intro conjI impI)
  assume "start + len \<le> length str"
  from validate_path_spec [OF this]
  show "\<exists>tr. dbus_validate_path str start len
         = Some (Returns (valid_object_path (take len (drop start str))), tr)"
    by blast
qed (simp_all add: path_eval)

theorem C7_object_path_grammar_witness:
  "(0 :: nat) + 6 \<le> length (bytes ''/a/b_9'')
   \<and> dbus_validate_path (bytes ''/a/b_9'') 0 6 = Some (Returns True, [0, 1, 2, 3, 4, 5])
   \<and> valid_object_path (take 6 (drop 0 (bytes ''/a/b_9'')))
   \<and> (0 :: nat) + 4 \<le> length (bytes ''/a.b'')
   \<and> \<not> valid_object_path (take 4 (drop 0 (bytes ''/a.b'')))"
proof -
  have h: "(0 :: nat) + 6 \<le> length (bytes ''/a/b_9'')"
    and h': "(0 :: nat) + 4 \<le> length (bytes ''/a.b'')"
    by (simp_all add: bytes_def)
  have e: "dbus_validate_path (bytes ''/a/b_9'') 0 6 = Some (Returns True, [0, 1, 2, 3, 4, 5])"
    and e': "dbus_validate_path (bytes ''/a.b'') 0 4 = Some (Returns False, [0, 1, 2])"
    by (simp_all add: path_eval)
  from C7_object_path_grammar [of 0 6 "bytes ''/a/b_9''"] h
  obtain tr where "dbus_validate_path (bytes ''/a/b_9'') 0 6
      = Some (Returns (valid_object_path (take 6 (drop 0 (bytes ''/a/b_9'')))), tr)"
    by blast
  with e have v: "valid_object_path (take 6 (drop 0 (bytes ''/a/b_9'')))"
    by simp
  from C7_object_path_grammar [of 0 4 "bytes ''/a.b''"] h'
  obtain tr' where "dbus_validate_path (bytes ''/a.b'') 0 4
      = Some (Returns (valid_object_path (take 4 (drop 0 (bytes ''/a.b'')))), tr')"
    by blast
  with e' have v': "\<not> valid_object_path (take 4 (drop 0 (bytes ''/a.b'')))"
    by simp
  from h e v h' v' show ?thesis by blast
qed

lemma dot_not_name_character: "\<not> VALID_NAME_CHARACTER dot"
  by (simp add: VALID_NAME_CHARACTER_def dot_def)

lemma unique_name_loop_spec:
  assumes "s \<le> end" "end \<le> length str"
  shows "\<exists>tr'. unique_name_loop str s end tr =
     Some (Returns (\<forall>i. s \<le> i \<and> i < end \<longrightarrow>
                       (if str ! i = dot then i + 1 < end \<and> VALID_NAME_CHARACTER (str ! (i + 1))
                        else VALID_NAME_CHARACTER (str ! i))), tr')
     \<and> set tr' \<subseteq> set tr \<union> {s ..< end}"
  using assms
proof (induction "end - s" arbitrary: s tr rule: less_induct)
  case less
  let ?Q = "\<lambda>i. if str ! i = dot then i + 1 < end \<and> VALID_NAME_CHARACTER (str ! (i + 1))
                        else VALID_NAME_CHARACTER (str ! i)"
  show ?case
  proof (cases "s = end")
    case True
    then show ?thesis by (subst unique_name_loop.simps) auto
  next
    case False
    with less.prems have lt: "s < end" by simp
    with less.prems have pk: "peek str s = Some (str ! s)" by (simp add: peek_def)
    have split1: "(\<forall>i. s \<le> i \<and> i < end \<longrightarrow> ?Q i) \<longleftrightarrow> ?Q s \<and> (\<forall>i. s + 1 \<le> i \<and> i < end \<longrightarrow> ?Q i)"
    proof -
      have "\<And>i. s \<le> i \<longleftrightarrow> i = s \<or> s + 1 \<le> i" by auto
      then show ?thesis using lt by auto
    qed
    show ?thesis
    proof (cases "str ! s = dot")
      case d: True
      show ?thesis
      proof (cases "s + 1 = end")
        case True
        have "unique_name_loop str s end tr = Some (Returns False, tr @ [s])"
          using lt pk d True by (subst unique_name_loop.simps) simp
        moreover have "\<not> (\<forall>i. s \<le> i \<and> i < end \<longrightarrow> ?Q i)"
          using d True lt by auto
        ultimately show ?thesis using lt by auto
      next
        case ne: False
        with lt have lt2: "s + 1 < end" by simp
        with less.prems have pk2: "peek str (s + 1) = Some (str ! (s + 1))" by (simp add: peek_def)
        show ?thesis
        proof (cases "VALID_NAME_CHARACTER (str ! (s + 1))")
          case v: False
          have "unique_name_loop str s end tr = Some (Returns False, tr @ [s, s + 1])"
            using lt pk pk2 d ne v by (subst unique_name_loop.simps) simp
          moreover have "\<not> (\<forall>i. s \<le> i \<and> i < end \<longrightarrow> ?Q i)"
            using d v lt by auto
          ultimately show ?thesis using lt lt2 by auto
        next
          case v: True
          then have nd: "str ! (s + 1) \<noteq> dot" using dot_not_name_character by auto
          have m: "end - (s + 1 + 1) < end - s" using lt by simp
          have le: "s + 1 + 1 \<le> end" using lt2 by simp
          from less.hyps [OF m le less.prems(2), of "tr @ [s, s + 1]"]
          obtain tr' where
            r: "unique_name_loop str (s + 1 + 1) end (tr @ [s, s + 1]) =
              Some (Returns (\<forall>i. s + 1 + 1 \<le> i \<and> i < end \<longrightarrow> ?Q i), tr')"
            and t: "set tr' \<subseteq> set (tr @ [s, s + 1]) \<union> {s + 1 + 1 ..< end}"
            by auto
          have split2: "(\<forall>i. s + 1 \<le> i \<and> i < end \<longrightarrow> ?Q i)
              \<longleftrightarrow> ?Q (s + 1) \<and> (\<forall>i. s + 1 + 1 \<le> i \<and> i < end \<longrightarrow> ?Q i)"
          proof -
            have "\<And>i. s + 1 \<le> i \<longleftrightarrow> i = s + 1 \<or> s + 1 + 1 \<le> i" by auto
            then show ?thesis using lt2 by auto
          qed
          have "unique_name_loop str s end tr
              = unique_name_loop str (s + 1 + 1) end (tr @ [s, s + 1])"
            using lt pk pk2 d ne v by (subst unique_name_loop.simps) simp
          moreover have "(\<forall>i. s \<le> i \<and> i < end \<longrightarrow> ?Q i)
              \<longleftrightarrow> (\<forall>i. s + 1 + 1 \<le> i \<and> i < end \<longrightarrow> ?Q i)"
            using d v nd lt2 by (simp only: split1 split2) simp
          ultimately show ?thesis using r t lt lt2 by auto
        qed
      qed
    next
      case d: False
      show ?thesis
      proof (cases "VALID_NAME_CHARACTER (str ! s)")
        case v: False
        have "unique_name_loop str s end tr = Some (Returns False, tr @ [s])"
          using lt pk d v by (subst unique_name_loop.simps) simp
        moreover have "\<not> (\<forall>i. s \<le> i \<and> i < end \<longrightarrow> ?Q i)"
          using d v lt by auto
        ultimately show ?thesis using lt by auto
      next
        case v: True
        have m: "end - (s + 1) < end - s" using lt by simp
        have le: "s + 1 \<le> end" using lt by simp
        from less.hyps [OF m le less.prems(2), of "tr @ [s]"]
        obtain tr' where
          r: "unique_name_loop str (s + 1) end (tr @ [s]) =
            Some (Returns (\<forall>i. s + 1 \<le> i \<and> i < end \<longrightarrow> ?Q i), tr')"
          and t: "set tr' \<subseteq> set (tr @ [s]) \<union> {s + 1 ..< end}"
          by auto
        have "unique_name_loop str s end tr = unique_name_loop str (s + 1) end (tr @ [s])"
          using lt pk d v by (subst unique_name_loop.simps) simp
        moreover have "(\<forall>i. s \<le> i \<and> i < end \<longrightarrow> ?Q i)
            \<longleftrightarrow> (\<forall>i. s + 1 \<le> i \<and> i < end \<longrightarrow> ?Q i)"
          using d v by (simp only: split1) simp
        ultimately show ?thesis using r t lt by auto
      qed
    qed
  qed
qed

lemma relaxed_conditions:
  assumes r: "start + len \<le> length str" and l: "0 < len"
  shows "(\<forall>i. start + 1 \<le> i \<and> i < start + len \<longrightarrow>
             (if str ! i = dot
              then i + 1 < start + len \<and> VALID_NAME_CHARACTER (str ! (i + 1))
              else VALID_NAME_CHARACTER (str ! i)))
         \<longleftrightarrow> relaxed_unique_name (take (len - 1) (drop (start + 1) str))"
    (is "?A \<longleftrightarrow> _")
proof -
  define bs where "bs = take (len - 1) (drop (start + 1) str)"
  have len: "length bs = len - 1" using r l by (simp add: bs_def)
  have nth: "\<And>k. k < len - 1 \<Longrightarrow> bs ! k = str ! (start + 1 + k)"
    using r l by (simp add: bs_def)
  have "?A \<longleftrightarrow> relaxed_unique_name bs"
  proof
    assume A: ?A
    show "relaxed_unique_name bs"
      unfolding relaxed_unique_name_def
    proof (intro ballI)
      fix k assume "k \<in> {..< length bs}"
      with len have k: "k < len - 1" by simp
      then have i: "start + 1 \<le> start + 1 + k \<and> start + 1 + k < start + len" by simp
      note q = A [rule_format, OF i]
      show "if bs ! k = dot then k + 1 < length bs \<and> VALID_NAME_CHARACTER (bs ! (k + 1))
            else VALID_NAME_CHARACTER (bs ! k)"
      proof (cases "bs ! k = dot")
        case True
        with nth [OF k] have d: "str ! (start + 1 + k) = dot" by simp
        with q have q': "start + 1 + k + 1 < start + len"
            "VALID_NAME_CHARACTER (str ! (start + 1 + k + 1))" by simp_all
        then have k1: "k + 1 < len - 1" by simp
        with nth [OF k1] q'(2) have "VALID_NAME_CHARACTER (bs ! (k + 1))"
          by (simp add: add.assoc)
        with True k1 len show ?thesis by simp
      next
        case False
        with nth [OF k] have d: "str ! (start + 1 + k) \<noteq> dot" by simp
        with q have "VALID_NAME_CHARACTER (str ! (start + 1 + k))" by simp
        with False nth [OF k] show ?thesis by simp
      qed
    qed
  next
    assume R: "relaxed_unique_name bs"
    show ?A
    proof (intro allI impI)
      fix i assume i: "start + 1 \<le> i \<and> i < start + len"
      define k where "k = i - (start + 1)"
      from i have k: "k < len - 1" and ik: "i = start + 1 + k" by (auto simp: k_def)
      from k len have kin: "k \<in> {..< length bs}" by simp
      from R have "\<forall>k \<in> {..< length bs}. if bs ! k = dot
          then k + 1 < length bs \<and> VALID_NAME_CHARACTER (bs ! (k + 1))
          else VALID_NAME_CHARACTER (bs ! k)"
        unfolding relaxed_unique_name_def .
      from this kin have q: "if bs ! k = dot
          then k + 1 < length bs \<and> VALID_NAME_CHARACTER (bs ! (k + 1))
          else VALID_NAME_CHARACTER (bs ! k)"
        by (rule bspec)
      show "if str ! i = dot
              then i + 1 < start + len \<and> VALID_NAME_CHARACTER (str ! (i + 1))
              else VALID_NAME_CHARACTER (str ! i)"
      proof (cases "str ! i = dot")
        case True
        with nth [OF k] ik have "bs ! k = dot" by simp
        with q len have k1: "k + 1 < len - 1" and v: "VALID_NAME_CHARACTER (bs ! (k + 1))"
          by simp_all
        from nth [OF k1] v have "VALID_NAME_CHARACTER (str ! (start + 1 + (k + 1)))" by simp
        then have "VALID_NAME_CHARACTER (str ! (i + 1))" using ik by (simp add: add.assoc)
        moreover from k1 ik have "i + 1 < start + len" by simp
        ultimately show ?thesis using True by simp
      next
        case False
        with nth [OF k] ik have "bs ! k \<noteq> dot" by simp
        with q have "VALID_NAME_CHARACTER (bs ! k)" by simp
        with nth [OF k] ik False show ?thesis by simp
      qed
    qed
  qed
  then show ?thesis by (simp only: bs_def)
qed

lemma validate_unique_name_spec:
  assumes r: "start + len \<le> length str" and l: "0 < len"
    and m: "len \<le> DBUS_MAXIMUM_NAME_LENGTH P" and c: "str ! start = colon"
  shows "\<exists>tr. dbus_validate_unique_name P str start len
           = Some (Returns (relaxed_unique_name (take (len - 1) (drop (start + 1) str))), tr)"
proof -
  from r l have pk: "peek str start = Some (str ! start)" by (simp add: peek_def)
  have a: "\<not> int len > int (length str) - int start" "start \<le> length str" using r by simp_all
  have le: "start + 1 \<le> start + len" using l by simp
  from unique_name_loop_spec [OF le r, of "[start]"]
  obtain tr' where
    p: "unique_name_loop str (start + 1) (start + len) [start] =
      Some (Returns (\<forall>i. start + 1 \<le> i \<and> i < start + len \<longrightarrow>
             (if str ! i = dot
              then i + 1 < start + len \<and> VALID_NAME_CHARACTER (str ! (i + 1))
              else VALID_NAME_CHARACTER (str ! i))), tr')"
    by auto
  from p have "unique_name_loop str (start + 1) (start + len) [start] =
      Some (Returns (relaxed_unique_name (take (len - 1) (drop (start + 1) str))), tr')"
    by (simp only: relaxed_conditions [OF r l])
  then show ?thesis
    using a l m pk c by (simp add: dbus_validate_unique_name_def)
qed

lemmas name_eval =
  bytes_def peek_def dbus_lp64_def dbus_validate_bus_name_def dbus_string_get_byte_def
  dbus_validate_unique_name_def unique_name_loop.simps dbus_validate_interface_def
  interface_loop.simps colon_def dot_def VALID_NAME_CHARACTER_def
  VALID_INITIAL_NAME_CHARACTER_def

text \<open>
  C2, as amended. \<open>_dbus_validate_bus_name\<close> returns TRUE for \<open>:1.5\<close> and also for the
  one-byte name \<open>:\<close>. When the first byte is a colon, the rest of a range that lies in
  the string and is within the length limit is valid exactly under the relaxed rule:
  every byte a dot or a name character, every dot followed by a name character. When
  the first byte is not a colon, the result is that of \<open>_dbus_validate_interface\<close> on
  the whole range.
\<close>

theorem C2_bus_name:
  "(0 < len \<and> start + len \<le> length str \<and> len \<le> DBUS_MAXIMUM_NAME_LENGTH P
      \<and> str ! start = colon \<longrightarrow>
      (\<exists>tr. dbus_validate_bus_name P str start len
         = Some (Returns (relaxed_unique_name (take (len - 1) (drop (start + 1) str))), tr)))
   \<and> (0 < len \<and> start < length str \<and> str ! start \<noteq> colon \<longrightarrow>
       map_option fst (dbus_validate_bus_name P str start len)
         = map_option fst (dbus_validate_interface P str start len))
   \<and> dbus_validate_bus_name dbus_lp64 (bytes '':1.5'') 0 4 = Some (Returns True, [0, 0, 1, 2, 3])
   \<and> dbus_validate_bus_name dbus_lp64 (bytes '':'') 0 1 = Some (Returns True, [0, 0])"
  (is "(?H1 \<longrightarrow> ?C1) \<and> (?H2 \<longrightarrow> ?C2_bus_name) \<and> ?C3 \<and> ?C4")
proof (intro conjI impI)
  assume h: ?H1
  then have r: "start + len \<le> length str" and l: "0 < len"
    and m: "len \<le> DBUS_MAXIMUM_NAME_LENGTH P" and c: "str ! start = colon"
    by simp_all
  from validate_unique_name_spec [OF r l m c]
  obtain tr where "dbus_validate_unique_name P str start len
           = Some (Returns (relaxed_unique_name (take (len - 1) (drop (start + 1) str))), tr)"
    by blast
  moreover from r l have "start < length str" by simp
  ultimately show ?C1
    using l c by (simp add: dbus_validate_bus_name_def dbus_string_get_byte_def)
next
  assume ?H2
  then show ?C2_bus_name
    by (cases "dbus_validate_interface P str start len")
       (auto simp: dbus_validate_bus_name_def dbus_string_get_byte_def)
next
  show ?C3 by (simp add: name_eval)
next
  show ?C4 by (simp add: name_eval)
qed

text \<open>
  C2 as stated fails: for the one-byte name \<open>:\<close> the loop over the rest of the name has
  nothing to look at, and the result is TRUE.
\<close>

theorem C2_bus_name_counterexample:
  "dbus_validate_bus_name dbus_lp64 (bytes '':'') 0 1 = Some (Returns True, [0, 0])
   \<and> dbus_validate_bus_name dbus_lp64 (bytes '':'') 0 1 \<noteq> Some (Returns False, [0, 0])"
  by (simp add: name_eval)

theorem C2_bus_name_witness:
  "((0 :: nat) < 4 \<and> 0 + 4 \<le> length (bytes '':1.5'')
      \<and> 4 \<le> DBUS_MAXIMUM_NAME_LENGTH dbus_lp64 \<and> bytes '':1.5'' ! 0 = colon)
   \<and> dbus_validate_bus_name dbus_lp64 (bytes '':1.5'') 0 4 = Some (Returns True, [0, 0, 1, 2, 3])
   \<and> relaxed_unique_name (take (4 - 1) (drop (0 + 1) (bytes '':1.5'')))
   \<and> ((0 :: nat) < 3 \<and> 0 < length (bytes ''a.b'') \<and> bytes ''a.b'' ! 0 \<noteq> colon)
   \<and> map_option fst (dbus_validate_bus_name dbus_lp64 (bytes ''a.b'') 0 3)
        = map_option fst (dbus_validate_interface dbus_lp64 (bytes ''a.b'') 0 3)
   \<and> dbus_validate_interface dbus_lp64 (bytes ''a.b'') 0 3 = Some (Returns True, [0, 1, 2])"
  (is "?H1 \<and> ?E1 \<and> ?C1 \<and> ?H2 \<and> ?C2_bus_name \<and> ?E2")
proof -
  have h1: ?H1 and h2: ?H2
    by (simp_all add: bytes_def dbus_lp64_def colon_def)
  have e1: ?E1 and e2: ?E2
    by (simp_all add: name_eval)
  from h1 C2_bus_name [of 4 0 "bytes '':1.5''" dbus_lp64]
  obtain tr where "dbus_validate_bus_name dbus_lp64 (bytes '':1.5'') 0 4
      = Some (Returns (relaxed_unique_name (take (4 - 1) (drop (0 + 1) (bytes '':1.5'')))), tr)"
    by blast
  with e1 have c1: ?C1 by simp
  from h2 C2_bus_name [of 3 0 "bytes ''a.b''" dbus_lp64] have c2: ?C2_bus_name by blast
  from h1 e1 c1 h2 c2 e2 show ?thesis by blast
qed

section \<open>The name validators: early returns\<close>

text \<open>
  C10. \<open>_dbus_validate_path\<close>, \<open>_dbus_validate_interface\<close> and
  \<open>_dbus_validate_member\<close> each return FALSE without reading any byte of the string
  whenever \<open>len\<close> is 0 or greater than the length of the string minus \<open>start\<close>.
\<close>

theorem C10_no_read_on_bad_range:
  "start \<le> length str \<Longrightarrow> len = 0 \<or> len > length str - start \<Longrightarrow>
     dbus_validate_path str start len = Some (Returns False, [])
     \<and> dbus_validate_interface P str start len = Some (Returns False, [])
     \<and> dbus_validate_member P str start len = Some (Returns False, [])"
  by (auto simp: dbus_validate_path_def dbus_validate_interface_def dbus_validate_member_def)

theorem C10_no_read_on_bad_range_witness:
  "(1 :: nat) \<le> length (bytes ''/a'') \<and> ((5 :: nat) = 0 \<or> 5 > length (bytes ''/a'') - 1)
     \<and> dbus_validate_path (bytes ''/a'') 1 5 = Some (Returns False, [])
     \<and> dbus_validate_interface dbus_lp64 (bytes ''/a'') 1 5 = Some (Returns False, [])
     \<and> dbus_validate_member dbus_lp64 (bytes ''/a'') 1 5 = Some (Returns False, [])"
  using C10_no_read_on_bad_range [of 1 "bytes ''/a''" 5 dbus_lp64] by (simp add: bytes_def)

end
